theory Spec2Isabelle
  imports Complex_Main "HOL-Library.Monad_Syntax"
begin

section \<open>Time: instants, host zone and IANA zones\<close>

text \<open>
  An instant is the \<open>getTime()\<close> value of a valid JavaScript \<open>Date\<close>: the number of
  milliseconds since the epoch, an integer. The dates the slot generator computes and
  the timestamps of the table are instants. The two dates of a booking request can be
  \<open>Invalid Date\<close>; they have the type \<open>jsdate\<close>, introduced with the validation.

  The functions of \<open>date-fns\<close> and \<open>date-fns-tz\<close> that read wall-clock fields depend on
  a time zone: the zone of the host process for \<open>setHours\<close>, \<open>getDay\<close>, \<open>startOfDay\<close>,
  \<open>endOfDay\<close>, \<open>addDays\<close> and \<open>parseISO\<close> of a date without time, and the IANA zone
  named by a rule for \<open>zonedTimeToUtc\<close> and \<open>formatInTimeZone\<close>. A zone is a pair of
  conversions between instants and wall-clock readings, a wall-clock reading being the
  number of milliseconds that the reading, taken as UTC, is after the epoch. The host
  zone \<open>sys\<close> and the zone database \<open>zones\<close> are parameters of the model.
\<close>

type_synonym instant = int

record tzone =
  to_wall :: "instant \<Rightarrow> int"
  of_wall :: "int \<Rightarrow> instant"

definition fixed_zone :: "int \<Rightarrow> tzone" where
  "fixed_zone off = \<lparr> to_wall = (\<lambda>t. t + off), of_wall = (\<lambda>w. w - off) \<rparr>"

definition ms_per_minute :: int where "ms_per_minute = 1000 * 60"
definition ms_per_hour :: int where "ms_per_hour = 1000 * 60 * 60"
definition ms_per_day :: int where "ms_per_day = 1000 * 60 * 60 * 24"

definition isBefore :: "instant \<Rightarrow> instant \<Rightarrow> bool" where
  "isBefore d c = (d < c)"

definition isAfter :: "instant \<Rightarrow> instant \<Rightarrow> bool" where
  "isAfter d c = (d > c)"

definition addMinutes :: "instant \<Rightarrow> int \<Rightarrow> instant" where
  "addMinutes d n = d + n * ms_per_minute"

definition addHours :: "instant \<Rightarrow> int \<Rightarrow> instant" where
  "addHours d n = d + n * ms_per_hour"

text \<open>\<open>addDays\<close> moves the calendar date of the host zone and keeps the time of day.\<close>

definition addDays :: "tzone \<Rightarrow> instant \<Rightarrow> int \<Rightarrow> instant" where
  "addDays sys d n = of_wall sys (to_wall sys d + n * ms_per_day)"

definition startOfDay :: "tzone \<Rightarrow> instant \<Rightarrow> instant" where
  "startOfDay sys d = of_wall sys ((to_wall sys d div ms_per_day) * ms_per_day)"

definition endOfDay :: "tzone \<Rightarrow> instant \<Rightarrow> instant" where
  "endOfDay sys d = of_wall sys ((to_wall sys d div ms_per_day) * ms_per_day + (ms_per_day - 1))"

text \<open>Day of the week in the host zone, 0 = Sunday; the epoch was a Thursday.\<close>

definition getDay :: "tzone \<Rightarrow> instant \<Rightarrow> int" where
  "getDay sys d = (to_wall sys d div ms_per_day + 4) mod 7"

section \<open>Temporal policy (class TimeUtils)\<close>

text \<open>
  The source reads the clock with \<open>new Date()\<close> inside each predicate; the model takes
  the evaluation instant \<open>now\<close> as an argument.
\<close>

definition meetsLeadTime :: "instant \<Rightarrow> instant \<Rightarrow> bool" where
  "meetsLeadTime now slotStart =
     (let leadTimeHours = 2;
          minimumTime = addHours now leadTimeHours
      in isAfter slotStart minimumTime)"

definition withinBookingHorizon :: "tzone \<Rightarrow> instant \<Rightarrow> instant \<Rightarrow> bool" where
  "withinBookingHorizon sys now slotStart =
     (let horizonDays = 14;
          maxDate = addDays sys now horizonDays
      in isBefore slotStart maxDate)"

definition meetsCancellationNotice :: "instant \<Rightarrow> instant \<Rightarrow> bool" where
  "meetsCancellationNotice now slotStart =
     (let noticeHours = 12;
          minimumTime = addHours now noticeHours
      in isAfter slotStart minimumTime)"

text \<open>\<open>TimeUtils.slotsOverlap\<close>; an interval is the pair of its start and its end.\<close>

definition slotsOverlap :: "instant \<times> instant \<Rightarrow> instant \<times> instant \<Rightarrow> bool" where
  "slotsOverlap slot1 slot2 =
     (isBefore (fst slot1) (snd slot2) \<and> isAfter (snd slot1) (fst slot2))"

section \<open>Booking validation (BookingUtils.validateBookingSlot)\<close>

text \<open>Each \<open>throw new Error(...)\<close> of the source is one constructor.\<close>

datatype error =
    LeadTimeTooShort       \<comment> \<open>Booking must be at least 2 hours in advance\<close>
  | HorizonExceeded        \<comment> \<open>Booking cannot be more than 14 days in advance\<close>
  | DurationTooShort       \<comment> \<open>Slot duration must be at least 15 minutes\<close>
  | DurationTooLong        \<comment> \<open>Slot duration cannot exceed 8 hours\<close>
  | EndNotAfterStart       \<comment> \<open>Slot end time must be after start time\<close>
  | InvalidTimeFormat string \<comment> \<open>Invalid time format: (the string). Expected HH:MM or HH:MM:SS\<close>
  | InvalidTimeValue       \<comment> \<open>the hour or the minute of a rule's time is not a number\<close>
  | FromAfterTo            \<comment> \<open>From date must be before to date\<close>
  | DateRangeTooWide       \<comment> \<open>Date range cannot exceed 14 days\<close>

text \<open>
  The two dates of a booking request are what \<open>parseISO\<close> makes of the strings of the
  body, and \<open>parseISO\<close> returns \<open>Invalid Date\<close> for a string that names no instant,
  such as one with the 30th of February. A date is therefore an
  instant or \<open>InvalidDate\<close>; its \<open>getTime()\<close> is a number or \<open>NaN\<close>, which is \<open>None\<close>.
  Arithmetic with \<open>NaN\<close> gives \<open>NaN\<close> and every comparison with \<open>NaN\<close> is false.
\<close>

datatype jsdate = Date instant | InvalidDate

fun getTime :: "jsdate \<Rightarrow> int option" where
  "getTime (Date t) = Some t"
| "getTime InvalidDate = None"

definition num_minus :: "int option \<Rightarrow> int option \<Rightarrow> int option" where
  "num_minus a b = (case (a, b) of (Some x, Some y) \<Rightarrow> Some (x - y) | _ \<Rightarrow> None)"

definition num_divide :: "int option \<Rightarrow> real \<Rightarrow> real option" where
  "num_divide a c = (case a of Some x \<Rightarrow> Some (real_of_int x / c) | None \<Rightarrow> None)"

definition num_less :: "real option \<Rightarrow> real \<Rightarrow> bool" where
  "num_less a c = (case a of Some x \<Rightarrow> x < c | None \<Rightarrow> False)"

definition num_greater :: "real option \<Rightarrow> real \<Rightarrow> bool" where
  "num_greater a c = (case a of Some x \<Rightarrow> x > c | None \<Rightarrow> False)"

text \<open>
  The predicates of \<open>TimeUtils\<close> and the comparisons of \<open>date-fns\<close> compare time values:
  on \<open>Invalid Date\<close> each is false. \<open>on_date\<close> applies a predicate on instants to a date,
  \<open>on_dates\<close> a comparison of instants to two dates.
\<close>

definition on_date :: "(instant \<Rightarrow> bool) \<Rightarrow> jsdate \<Rightarrow> bool" where
  "on_date P d = (case getTime d of Some t \<Rightarrow> P t | None \<Rightarrow> False)"

definition on_dates :: "(instant \<Rightarrow> instant \<Rightarrow> bool) \<Rightarrow> jsdate \<Rightarrow> jsdate \<Rightarrow> bool" where
  "on_dates R d c =
     (case (getTime d, getTime c) of (Some t, Some u) \<Rightarrow> R t u | _ \<Rightarrow> False)"

definition validateBookingSlot :: "tzone \<Rightarrow> instant \<Rightarrow> jsdate \<Rightarrow> jsdate \<Rightarrow> error + unit" where
  "validateBookingSlot sys now slotStart slotEnd =
     (if \<not> on_date (meetsLeadTime now) slotStart then Inl LeadTimeTooShort
      else if \<not> on_date (withinBookingHorizon sys now) slotStart then Inl HorizonExceeded
      else
        let durationMs = num_minus (getTime slotEnd) (getTime slotStart);
            durationMinutes = num_divide durationMs (1000 * 60)
        in if num_less durationMinutes 15 then Inl DurationTooShort
           else if num_greater durationMinutes 480 then Inl DurationTooLong
           else if \<not> on_dates isAfter slotEnd slotStart then Inl EndNotAfterStart
           else Inr ())"

section \<open>The overlap condition of the booking route\<close>

text \<open>
  The \<open>WHERE\<close> clause of the query in \<open>POST /book\<close>, for a row with columns
  \<open>slot_start\<close>, \<open>slot_end\<close> and the parameters \<open>$2\<close> (requested start) and \<open>$3\<close>
  (requested end).
\<close>

definition sql_overlap :: "instant \<Rightarrow> instant \<Rightarrow> instant \<Rightarrow> instant \<Rightarrow> bool" where
  "sql_overlap row_start row_end p2 p3 =
     ((row_start \<le> p2 \<and> row_end > p2) \<or>
      (row_start < p3 \<and> row_end \<ge> p3) \<or>
      (row_start \<ge> p2 \<and> row_end \<le> p3))"

section \<open>Resolving a rule's wall-clock time (TimeUtils.timeStringToUTC)\<close>

text \<open>\<open>String.prototype.split\<close> with a one-character separator.\<close>

fun split_on :: "char \<Rightarrow> string \<Rightarrow> string list" where
  "split_on c [] = [[]]"
| "split_on c (x # xs) =
     (if x = c then [] # split_on c xs
      else (case split_on c xs of
              [] \<Rightarrow> [[x]]
            | p # ps \<Rightarrow> (x # p) # ps))"

text \<open>
  \<open>parseInt(s, 10)\<close>: leading white space is skipped (the ASCII white space; a
  \<open>string\<close> here has no other), a sign is read, then the longest run of decimal digits;
  \<open>None\<close> stands for \<open>NaN\<close>, the result when no digit follows.
\<close>

definition is_space :: "char \<Rightarrow> bool" where
  "is_space c = (of_char c \<in> {9, 10, 11, 12, 13, 32 :: nat})"

definition is_digit :: "char \<Rightarrow> bool" where
  "is_digit c = (48 \<le> (of_char c :: nat) \<and> (of_char c :: nat) \<le> 57)"

definition digits_value :: "string \<Rightarrow> int" where
  "digits_value ds = foldl (\<lambda>acc c. 10 * acc + (of_char c - 48)) 0 ds"

definition parseInt10 :: "string \<Rightarrow> int option" where
  "parseInt10 s =
     (let t = dropWhile is_space s;
          (sign, u) = (case t of
                         c # r \<Rightarrow> if c = CHR ''-'' then (- 1, r)
                                  else if c = CHR ''+'' then (1, r) else (1, t)
                       | [] \<Rightarrow> (1, t));
          ds = takeWhile is_digit u
      in if ds = [] then None else Some (sign * digits_value ds))"

text \<open>
  \<open>Date.prototype.setHours(h, m, s, ms)\<close> replaces the time of day of the host zone's
  wall-clock reading; \<open>zonedTimeToUtc\<close> reads the host zone's wall-clock fields of its
  argument and returns the instant at which the zone \<open>tz\<close> shows them. An hour or a
  minute that is \<open>NaN\<close> makes the date invalid, and the conversion ends with the error
  \<open>InvalidTimeValue\<close>. The zone database \<open>zones\<close> is total: a name it does not know
  is outside the model.
\<close>

definition setHours :: "tzone \<Rightarrow> instant \<Rightarrow> int \<Rightarrow> int \<Rightarrow> int \<Rightarrow> int \<Rightarrow> instant" where
  "setHours sys d h m s ms =
     of_wall sys ((to_wall sys d div ms_per_day) * ms_per_day
                  + h * ms_per_hour + m * ms_per_minute + s * 1000 + ms)"

definition zonedTimeToUtc :: "tzone \<Rightarrow> instant \<Rightarrow> tzone \<Rightarrow> instant" where
  "zonedTimeToUtc sys d tz = of_wall tz (to_wall sys d)"

definition timeStringToUTC ::
  "tzone \<Rightarrow> (string \<Rightarrow> tzone) \<Rightarrow> string \<Rightarrow> instant \<Rightarrow> string \<Rightarrow> error + instant" where
  "timeStringToUTC sys zones timeString date' timezone' =
     (let timeParts = split_on CHR '':'' timeString
      in if length timeParts < 2 \<or> length timeParts > 3 then Inl (InvalidTimeFormat timeString)
         else
           (case (parseInt10 (timeParts ! 0), parseInt10 (timeParts ! 1)) of
              (Some hours, Some minutes) \<Rightarrow>
                 let localDate = setHours sys date' hours minutes 0 0
                 in Inr (zonedTimeToUtc sys localDate (zones timezone'))
            | _ \<Rightarrow> Inl InvalidTimeValue))"

section \<open>Slot generation (TimeUtils.generateSlotsForDate)\<close>

record AvailabilityRule =
  rule_id :: nat
  rule_user_id :: nat
  day_of_week :: int
  start_time :: string
  end_time :: string
  interval_minutes :: int
  timezone :: string
  rule_created_at :: instant

text \<open>
  The generator is handed the columns \<open>slot_start\<close> and \<open>slot_end\<close> of the reservations;
  a row of the bookings table, below, has these two and the others.
\<close>

record BookedSlot =
  slot_start :: instant
  slot_end :: instant

record TimeSlot =
  start :: instant
  end_at :: instant
  available :: bool

text \<open>
  The \<open>while\<close> loop of one rule. It has no bound of its own: with an interval that is
  not positive the cursor never reaches the end, so the loop is a partial function and
  \<open>None\<close> is the run that never returns.
\<close>

partial_function (option) slot_loop ::
  "tzone \<Rightarrow> instant \<Rightarrow> 'a BookedSlot_scheme list \<Rightarrow> int \<Rightarrow> instant \<Rightarrow> instant
     \<Rightarrow> TimeSlot list \<Rightarrow> TimeSlot list option" where
  "slot_loop sys now bookedSlots interval slotEnd currentSlot slots =
     (if isBefore currentSlot slotEnd then
        (let slotEndTime = addMinutes currentSlot interval
         in if isAfter slotEndTime slotEnd then Some slots
            else
              (let meetsLead = meetsLeadTime now currentSlot;
                   withinHorizon = withinBookingHorizon sys now currentSlot;
                   isBooked = list_ex (\<lambda>booking.
                       slotsOverlap (currentSlot, slotEndTime)
                                    (slot_start booking, slot_end booking)) bookedSlots;
                   isAvailable = (meetsLead \<and> withinHorizon \<and> \<not> isBooked)
               in slot_loop sys now bookedSlots interval slotEnd slotEndTime
                    (slots @ [\<lparr> start = currentSlot, end_at = slotEndTime,
                                available = isAvailable \<rparr>])))
      else Some slots)"

declare slot_loop.simps [code]

text \<open>The \<open>for\<close> loop over the rules of the day; a throw of the conversion ends it.\<close>

fun rules_loop ::
  "tzone \<Rightarrow> (string \<Rightarrow> tzone) \<Rightarrow> instant \<Rightarrow> instant \<Rightarrow> 'a BookedSlot_scheme list
     \<Rightarrow> AvailabilityRule list \<Rightarrow> TimeSlot list \<Rightarrow> (error + TimeSlot list) option" where
  "rules_loop sys zones now date' bookedSlots [] slots = Some (Inr slots)"
| "rules_loop sys zones now date' bookedSlots (rule # rest) slots =
     (case timeStringToUTC sys zones (start_time rule) date' (timezone rule) of
        Inl e \<Rightarrow> Some (Inl e)
      | Inr slotStart \<Rightarrow>
          (case timeStringToUTC sys zones (end_time rule) date' (timezone rule) of
             Inl e \<Rightarrow> Some (Inl e)
           | Inr slotEnd \<Rightarrow>
               (case slot_loop sys now bookedSlots (interval_minutes rule) slotEnd slotStart slots of
                  None \<Rightarrow> None
                | Some slots' \<Rightarrow> rules_loop sys zones now date' bookedSlots rest slots')))"

text \<open>
  \<open>Array.prototype.sort\<close> is stable, as is \<open>sort_key\<close>. The result is \<open>None\<close> when a
  loop never ends, \<open>Some (Inl e)\<close> when the conversion throws, \<open>Some (Inr slots)\<close>
  otherwise.
\<close>

definition generateSlotsForDate ::
  "tzone \<Rightarrow> (string \<Rightarrow> tzone) \<Rightarrow> instant \<Rightarrow> instant \<Rightarrow> AvailabilityRule list
     \<Rightarrow> 'a BookedSlot_scheme list \<Rightarrow> string \<Rightarrow> (error + TimeSlot list) option" where
  "generateSlotsForDate sys zones now date' availabilityRules bookedSlots hostTimezone =
     (let dayOfWeek = getDay sys date';
          rulesForDay = filter (\<lambda>rule. day_of_week rule = dayOfWeek) availabilityRules
      in map_option (map_sum id (sort_key start))
           (rules_loop sys zones now date' bookedSlots rulesForDay []))"

section \<open>Date ranges (TimeUtils.validateDateRange, TimeUtils.generateDateRange)\<close>

text \<open>
  The query parameters \<open>from\<close> and \<open>to\<close> are calendar dates \<open>YYYY-MM-DD\<close>. A calendar
  date is modelled by its day number (days since 1970-01-01); \<open>parseISO\<close> of a date
  without time is midnight of that date in the host zone.
\<close>

definition parseISO_date :: "tzone \<Rightarrow> int \<Rightarrow> instant" where
  "parseISO_date sys day = of_wall sys (day * ms_per_day)"

definition validateDateRange :: "tzone \<Rightarrow> int \<Rightarrow> int \<Rightarrow> error + (instant \<times> instant)" where
  "validateDateRange sys fromDate toDate =
     (let from = parseISO_date sys fromDate;
          to = parseISO_date sys toDate
      in if isAfter from to then Inl FromAfterTo
         else
           let daysDiff = \<lceil>real_of_int (to - from) / (1000 * 60 * 60 * 24)\<rceil>
           in if daysDiff > 14 then Inl DateRangeTooWide
              else Inr (startOfDay sys from, endOfDay sys to))"

text \<open>The loop of \<open>generateDateRange\<close> ends only if \<open>addDays\<close> passes the end date.\<close>

partial_function (option) date_loop ::
  "tzone \<Rightarrow> instant \<Rightarrow> instant \<Rightarrow> instant list \<Rightarrow> instant list option" where
  "date_loop sys endDate currentDate dates =
     (if \<not> isAfter currentDate endDate
      then date_loop sys endDate (addDays sys currentDate 1) (dates @ [currentDate])
      else Some dates)"

declare date_loop.simps [code]

definition generateDateRange :: "tzone \<Rightarrow> instant \<Rightarrow> instant \<Rightarrow> instant list option" where
  "generateDateRange sys from to =
     (let currentDate = startOfDay sys from;
          endDate = startOfDay sys to
      in date_loop sys endDate currentDate [])"

section \<open>The bookings table\<close>

datatype status = Confirmed | Cancelled

record Booking = BookedSlot +
  row_id :: nat
  user_id :: nat
  booking_id :: string
  cancel_code :: string
  name :: string
  email :: string
  status :: status
  created_at :: instant

text \<open>
  The table is the list of its rows in insertion order, with the next value of the
  \<open>SERIAL\<close> sequence, which an insert consumes even when it fails. Of the constraints of
  \<open>init.sql\<close> an insert checks \<open>CHECK (slot_end > slot_start)\<close>, \<open>booking_id UNIQUE\<close> and
  the partial unique index \<open>idx_bookings_no_overlap\<close> on
  \<open>(user_id, slot_start, slot_end) WHERE status = 'confirmed'\<close>; a violation makes the
  query throw, which is \<open>None\<close>.
\<close>

record bookings_table =
  rows :: "Booking list"
  next_id :: nat

definition idx_bookings_no_overlap_violated :: "Booking list \<Rightarrow> Booking \<Rightarrow> bool" where
  "idx_bookings_no_overlap_violated rs b =
     (status b = Confirmed \<and>
      list_ex (\<lambda>r. status r = Confirmed \<and> user_id r = user_id b \<and>
                    slot_start r = slot_start b \<and> slot_end r = slot_end b) rs)"

definition insert_booking ::
  "bookings_table \<Rightarrow> instant \<Rightarrow> nat \<Rightarrow> string \<Rightarrow> string \<Rightarrow> string \<Rightarrow> string
     \<Rightarrow> instant \<Rightarrow> instant \<Rightarrow> Booking option \<times> bookings_table" where
  "insert_booking tbl now uid bookingId cancelCode name' email' slotStart slotEnd =
     (let b = \<lparr> slot_start = slotStart, slot_end = slotEnd, row_id = next_id tbl,
                 user_id = uid, booking_id = bookingId, cancel_code = cancelCode,
                 name = name', email = email', status = Confirmed, created_at = now \<rparr>;
          tbl' = tbl \<lparr> next_id := Suc (next_id tbl) \<rparr>
      in if \<not> slot_end b > slot_start b then (None, tbl')
         else if list_ex (\<lambda>r. booking_id r = bookingId) (rows tbl) then (None, tbl')
         else if idx_bookings_no_overlap_violated (rows tbl) b then (None, tbl')
         else (Some b, tbl' \<lparr> rows := rows tbl @ [b] \<rparr>))"

section \<open>POST /book\<close>

text \<open>The message of each error; the handler's \<open>catch\<close> block reads it.\<close>

fun message :: "error \<Rightarrow> string" where
  "message LeadTimeTooShort = ''Booking must be at least 2 hours in advance''"
| "message HorizonExceeded = ''Booking cannot be more than 14 days in advance''"
| "message DurationTooShort = ''Slot duration must be at least 15 minutes''"
| "message DurationTooLong = ''Slot duration cannot exceed 8 hours''"
| "message EndNotAfterStart = ''Slot end time must be after start time''"
| "message (InvalidTimeFormat timeString) =
     ''Invalid time format: '' @ timeString @ ''. Expected HH:MM or HH:MM:SS''"
| "message InvalidTimeValue = ''Invalid time value''"
| "message FromAfterTo = ''From date must be before to date''"
| "message DateRangeTooWide = ''Date range cannot exceed 14 days''"

text \<open>\<open>String.prototype.includes\<close>.\<close>

fun str_includes :: "string \<Rightarrow> string \<Rightarrow> bool" where
  "str_includes [] sub = (sub = [])"
| "str_includes (x # xs) sub = (take (length sub) (x # xs) = sub \<or> str_includes xs sub)"

datatype response =
    Created Booking            \<comment> \<open>201, Booking created successfully\<close>
  | SlotAlreadyBooked          \<comment> \<open>409, This time slot is already booked\<close>
  | BadRequest string          \<comment> \<open>400 with the message of the error\<close>
  | InternalServerError        \<comment> \<open>500, Internal server error\<close>
  | NotFound                   \<comment> \<open>404, Booking not found\<close>
  | AlreadyCancelled           \<comment> \<open>400, Booking is already cancelled\<close>
  | InvalidCancelCode          \<comment> \<open>401, Invalid cancel code\<close>
  | TooLateToCancel            \<comment> \<open>400, Cancellation must be at least 12 hours before\<close>
  | CancelledOk string instant \<comment> \<open>200, Booking cancelled successfully\<close>

text \<open>The \<open>catch\<close> block of the handler, for an error that is not a \<open>ZodError\<close>.\<close>

definition book_catch :: "string \<Rightarrow> response" where
  "book_catch msg =
     (if str_includes msg ''Booking must be'' \<or> str_includes msg ''Slot duration'' \<or>
         str_includes msg ''time must be''
      then BadRequest msg else InternalServerError)"

text \<open>The \<open>SELECT\<close> of the handler: the confirmed rows of the user that meet the condition.\<close>

definition existingBooking :: "bookings_table \<Rightarrow> nat \<Rightarrow> instant \<Rightarrow> instant \<Rightarrow> Booking list" where
  "existingBooking tbl uid slotStartDate slotEndDate =
     filter (\<lambda>r. user_id r = uid \<and> status r = Confirmed \<and>
                  sql_overlap (slot_start r) (slot_end r) slotStartDate slotEndDate)
            (rows tbl)"

text \<open>
  The handler awaits two queries. \<open>book_check\<close> is the handler up to the answer of the
  first one: \<open>Some r\<close> when it responds \<open>r\<close> there, \<open>None\<close> when it goes on to the
  \<open>INSERT\<close>. \<open>book_insert\<close> is the rest: an \<open>INSERT\<close> that throws reaches the
  \<open>catch\<close> block with the message of the database, which holds none of the three
  phrases the block looks for, so the answer is 500. The body has passed the schema and
  its two dates are valid, the instants \<open>slotStartDate\<close> and \<open>slotEndDate\<close> (a request
  with an \<open>Invalid Date\<close> ends in the throw of \<open>validateBookingSlot\<close>, before any
  query); the public identifier and the cancel code, drawn at random by the source, are
  arguments.
\<close>

definition book_check ::
  "tzone \<Rightarrow> instant \<Rightarrow> bookings_table \<Rightarrow> nat \<Rightarrow> instant \<Rightarrow> instant \<Rightarrow> response option" where
  "book_check sys now tbl uid slotStartDate slotEndDate =
     (case validateBookingSlot sys now (Date slotStartDate) (Date slotEndDate) of
        Inl err \<Rightarrow> Some (book_catch (message err))
      | Inr _ \<Rightarrow>
          if length (existingBooking tbl uid slotStartDate slotEndDate) > 0
          then Some SlotAlreadyBooked else None)"

definition book_insert ::
  "instant \<Rightarrow> bookings_table \<Rightarrow> nat \<Rightarrow> string \<Rightarrow> string \<Rightarrow> string \<Rightarrow> string
     \<Rightarrow> instant \<Rightarrow> instant \<Rightarrow> response \<times> bookings_table" where
  "book_insert now tbl uid bookingId cancelCode name' email' slotStartDate slotEndDate =
     (case insert_booking tbl now uid bookingId cancelCode name' email'
             slotStartDate slotEndDate of
        (None, tbl') \<Rightarrow> (InternalServerError, tbl')
      | (Some booking, tbl') \<Rightarrow> (Created booking, tbl'))"

definition book ::
  "tzone \<Rightarrow> instant \<Rightarrow> bookings_table \<Rightarrow> nat \<Rightarrow> string \<Rightarrow> string \<Rightarrow> string \<Rightarrow> string
     \<Rightarrow> instant \<Rightarrow> instant \<Rightarrow> response \<times> bookings_table" where
  "book sys now tbl uid bookingId cancelCode name' email' slotStartDate slotEndDate =
     (case book_check sys now tbl uid slotStartDate slotEndDate of
        Some r \<Rightarrow> (r, tbl)
      | None \<Rightarrow> book_insert now tbl uid bookingId cancelCode name' email'
                  slotStartDate slotEndDate)"

section \<open>POST /cancel\<close>

definition cancel :: "instant \<Rightarrow> bookings_table \<Rightarrow> string \<Rightarrow> string \<Rightarrow> response \<times> bookings_table" where
  "cancel now tbl bookingId cancelCode =
     (case filter (\<lambda>r. booking_id r = bookingId) (rows tbl) of
        [] \<Rightarrow> (NotFound, tbl)
      | booking # _ \<Rightarrow>
          if status booking = Cancelled then (AlreadyCancelled, tbl)
          else if cancel_code booking \<noteq> cancelCode then (InvalidCancelCode, tbl)
          else if \<not> meetsCancellationNotice now (slot_start booking)
               then (TooLateToCancel, tbl)
          else (CancelledOk (booking_id booking) now,
                tbl \<lparr> rows := map (\<lambda>r. if row_id r = row_id booking
                                         then r \<lparr> status := Cancelled \<rparr> else r)
                                  (rows tbl) \<rparr>))"

section \<open>The invariant of the reservations\<close>

definition conflicts :: "Booking \<Rightarrow> Booking \<Rightarrow> bool" where
  "conflicts r q =
     (user_id r = user_id q \<and> status r = Confirmed \<and> status q = Confirmed \<and>
      slotsOverlap (slot_start r, slot_end r) (slot_start q, slot_end q))"

fun no_double_booking :: "Booking list \<Rightarrow> bool" where
  "no_double_booking [] = True"
| "no_double_booking (r # rs) = ((\<forall>q \<in> set rs. \<not> conflicts r q) \<and> no_double_booking rs)"

section \<open>Rendering an instant in a zone (TimeUtils.formatInTimezone)\<close>

text \<open>
  The slots route renders each slot with \<open>formatInTimezone\<close> in the zone of the first
  rule. Only the fields \<open>HH:mm\<close> of the rendering are modelled: the hour and the minute
  of the wall-clock reading, two digits each.
\<close>

definition digit_char :: "nat \<Rightarrow> char" where
  "digit_char d = ''0123456789'' ! (d mod 10)"

definition two_digits :: "nat \<Rightarrow> string" where
  "two_digits n = [digit_char (n div 10), digit_char n]"

definition formatInTimezone_HHmm :: "tzone \<Rightarrow> instant \<Rightarrow> string" where
  "formatInTimezone_HHmm tz d =
     (let w = to_wall tz d mod ms_per_day;
          h = nat (w div ms_per_hour);
          m = nat ((w mod ms_per_hour) div ms_per_minute)
      in two_digits h @ '':'' @ two_digits m)"

section \<open>Two bookings in flight\<close>

text \<open>
  \<open>POST /book\<close> runs its two queries outside any transaction and takes no lock, so the
  queries of two requests can interleave. \<open>book_two_checks_first\<close> is the run in which
  the \<open>SELECT\<close> of both requests is answered before either \<open>INSERT\<close> is executed; the
  \<open>INSERT\<close> of the first request runs before the one of the second.
\<close>

record book_request =
  req_user :: nat
  req_booking_id :: string
  req_cancel_code :: string
  req_name :: string
  req_email :: string
  req_start :: instant
  req_end :: instant

definition book_two_checks_first ::
  "tzone \<Rightarrow> instant \<Rightarrow> bookings_table \<Rightarrow> book_request \<Rightarrow> book_request
     \<Rightarrow> response \<times> response \<times> bookings_table" where
  "book_two_checks_first sys now tbl a b =
     (let checkA = book_check sys now tbl (req_user a) (req_start a) (req_end a);
          checkB = book_check sys now tbl (req_user b) (req_start b) (req_end b);
          (respA, tbl1) = (case checkA of
               Some r \<Rightarrow> (r, tbl)
             | None \<Rightarrow> book_insert now tbl (req_user a) (req_booking_id a) (req_cancel_code a)
                         (req_name a) (req_email a) (req_start a) (req_end a));
          (respB, tbl2) = (case checkB of
               Some r \<Rightarrow> (r, tbl1)
             | None \<Rightarrow> book_insert now tbl1 (req_user b) (req_booking_id b) (req_cancel_code b)
                         (req_name b) (req_email b) (req_start b) (req_end b))
      in (respA, respB, tbl2))"

section \<open>What a lookup by public identifier observes\<close>

definition status_of :: "bookings_table \<Rightarrow> string \<Rightarrow> status option" where
  "status_of tbl bookingId =
     (case filter (\<lambda>r. booking_id r = bookingId) (rows tbl) of
        [] \<Rightarrow> None
      | booking # _ \<Rightarrow> Some (status booking))"

section \<open>Auxiliary notions for the statements\<close>

text \<open>
  The flag the generator computes for the interval from \<open>s\<close> to \<open>e\<close>, and the \<open>k\<close>-th
  slot of a rule whose resolved start is \<open>c\<close>.
\<close>

definition slot_flag ::
  "tzone \<Rightarrow> instant \<Rightarrow> 'a BookedSlot_scheme list \<Rightarrow> instant \<Rightarrow> instant \<Rightarrow> bool" where
  "slot_flag sys now bookedSlots s e =
     (meetsLeadTime now s \<and> withinBookingHorizon sys now s \<and>
      \<not> (\<exists>b \<in> set bookedSlots. slotsOverlap (s, e) (slot_start b, slot_end b)))"

definition nth_slot ::
  "tzone \<Rightarrow> instant \<Rightarrow> 'a BookedSlot_scheme list \<Rightarrow> int \<Rightarrow> instant \<Rightarrow> nat \<Rightarrow> TimeSlot" where
  "nth_slot sys now bookedSlots interval c k =
     \<lparr> start = c + int k * (interval * ms_per_minute),
       end_at = c + (int k + 1) * (interval * ms_per_minute),
       available = slot_flag sys now bookedSlots
          (c + int k * (interval * ms_per_minute))
          (c + (int k + 1) * (interval * ms_per_minute)) \<rparr>"

definition flag_ok :: "tzone \<Rightarrow> instant \<Rightarrow> 'a BookedSlot_scheme list \<Rightarrow> TimeSlot \<Rightarrow> bool" where
  "flag_ok sys now bookedSlots s =
     (available s = slot_flag sys now bookedSlots (start s) (end_at s))"

text \<open>
  The wall-clock reading of the midnight that begins the host's calendar date of \<open>d\<close>.
\<close>

definition host_midnight :: "tzone \<Rightarrow> instant \<Rightarrow> int" where
  "host_midnight sys d = (to_wall sys d div ms_per_day) * ms_per_day"

text \<open>
  The rule of the example: Monday, 09:00 to 17:00, every 30 minutes, in
  \<open>America/New_York\<close>, with the times as the \<open>TIME\<close> columns are read back; a zone table
  for the winter, when New York is five hours behind UTC; one reservation from 14:30 to
  15:00 UTC on Monday 2024-01-01; and two requests of the same owner that overlap, with
  the rows their inserts create.
\<close>

definition monday_rule :: AvailabilityRule where
  "monday_rule = \<lparr> rule_id = 1, rule_user_id = 7, day_of_week = 1,
      start_time = ''09:00:00'', end_time = ''17:00:00'', interval_minutes = 30,
      timezone = ''America/New_York'', rule_created_at = 0 \<rparr>"

definition new_york_winter :: "string \<Rightarrow> tzone" where
  "new_york_winter z = fixed_zone (- 18000000)"

definition booked_1430 :: "BookedSlot list" where
  "booked_1430 = [\<lparr> slot_start = 1704119400000, slot_end = 1704121200000 \<rparr>]"

definition request_a :: book_request where
  "request_a = \<lparr> req_user = 7, req_booking_id = ''123e4567-e89b-12d3-a456-426614174000'',
      req_cancel_code = ''AB12CD'', req_name = ''Ada'', req_email = ''ada@example.com'',
      req_start = 122400000, req_end = 126000000 \<rparr>"

definition request_b :: book_request where
  "request_b = \<lparr> req_user = 7, req_booking_id = ''223e4567-e89b-12d3-a456-426614174111'',
      req_cancel_code = ''ZZ99ZZ'', req_name = ''Bob'', req_email = ''bob@example.com'',
      req_start = 124200000, req_end = 127800000 \<rparr>"

definition row_a :: Booking where
  "row_a = \<lparr> slot_start = 122400000, slot_end = 126000000, row_id = 1, user_id = 7,
      booking_id = ''123e4567-e89b-12d3-a456-426614174000'', cancel_code = ''AB12CD'',
      name = ''Ada'', email = ''ada@example.com'', status = Confirmed, created_at = 0 \<rparr>"

definition row_b :: Booking where
  "row_b = \<lparr> slot_start = 124200000, slot_end = 127800000, row_id = 2, user_id = 7,
      booking_id = ''223e4567-e89b-12d3-a456-426614174111'', cancel_code = ''ZZ99ZZ'',
      name = ''Bob'', email = ''bob@example.com'', status = Confirmed, created_at = 0 \<rparr>"

definition short_monday_rules :: "AvailabilityRule list" where
  "short_monday_rules = [monday_rule \<lparr> end_time := ''10:40:00'' \<rparr>]"

text \<open>A table with one confirmed reservation, from 10:00 to 10:30 UTC on 1970-01-02.\<close>

definition sample_row :: Booking where
  "sample_row = \<lparr> slot_start = 122400000, slot_end = 124200000, row_id = 1, user_id = 7,
      booking_id = ''123e4567-e89b-12d3-a456-426614174000'', cancel_code = ''AB12CD'',
      name = ''Ada'', email = ''ada@example.com'', status = Confirmed, created_at = 0 \<rparr>"

definition sample_table :: bookings_table where
  "sample_table = \<lparr> rows = [sample_row], next_id = 2 \<rparr>"

section \<open>Basic facts\<close>

lemma fixed_zone_sel [simp]:
  "to_wall (fixed_zone off) t = t + off"
  "of_wall (fixed_zone off) w = w - off"
  by (simp_all add: fixed_zone_def)

lemma addDays_fixed [simp]: "addDays (fixed_zone off) d n = d + n * ms_per_day"
  by (simp add: addDays_def)

lemma overlap_imp_sql:
  "slotsOverlap (p2, p3) (a, b) \<Longrightarrow> sql_overlap a b p2 p3"
  by (auto simp: slotsOverlap_def sql_overlap_def isBefore_def isAfter_def)

lemma sql_imp_overlap:
  "a < b \<Longrightarrow> p2 < p3 \<Longrightarrow> sql_overlap a b p2 p3 \<Longrightarrow> slotsOverlap (p2, p3) (a, b)"
  by (auto simp: slotsOverlap_def sql_overlap_def isBefore_def isAfter_def)

lemma validateBookingSlot_valid:
  "validateBookingSlot sys now (Date slotStart) (Date slotEnd) =
     (if \<not> meetsLeadTime now slotStart then Inl LeadTimeTooShort
      else if \<not> withinBookingHorizon sys now slotStart then Inl HorizonExceeded
      else
        let durationMs = slotEnd - slotStart;
            durationMinutes = real_of_int durationMs / (1000 * 60)
        in if durationMinutes < 15 then Inl DurationTooShort
           else if durationMinutes > 480 then Inl DurationTooLong
           else if \<not> isAfter slotEnd slotStart then Inl EndNotAfterStart
           else Inr ())"
  by (simp add: validateBookingSlot_def on_date_def on_dates_def num_minus_def num_divide_def
      num_less_def num_greater_def Let_def)

lemma validate_ok_iff:
  "validateBookingSlot sys now (Date s) (Date e) = Inr () \<longleftrightarrow>
     meetsLeadTime now s \<and> withinBookingHorizon sys now s \<and>
     15 * ms_per_minute \<le> e - s \<and> e - s \<le> 480 * ms_per_minute"
  by (auto simp: validateBookingSlot_valid Let_def isAfter_def ms_per_minute_def field_simps)

lemma monday_2024_01_01: "getDay (fixed_zone 0) 1704067200000 = 1"
  by (simp add: getDay_def ms_per_day_def)

section \<open>The slot loop\<close>

lemma nth_slot_shift:
  "nth_slot sys now bk iv c (Suc k) = nth_slot sys now bk iv (c + iv * ms_per_minute) k"
  by (simp add: nth_slot_def algebra_simps)

lemma map_nth_slot_Suc:
  "map (nth_slot sys now bk iv c) [0..<Suc n] =
     nth_slot sys now bk iv c 0 # map (nth_slot sys now bk iv (c + iv * ms_per_minute)) [0..<n]"
proof -
  have "[0..<Suc n] = 0 # map Suc [0..<n]"
    by (simp add: upt_conv_Cons map_Suc_upt del: upt_Suc)
  then show ?thesis
    by (simp add: nth_slot_shift comp_def del: upt_Suc)
qed

lemma slot_loop_exit:
  "\<not> c < e \<Longrightarrow> slot_loop sys now bk iv e c acc = Some acc"
  by (subst slot_loop.simps) (simp add: isBefore_def)

lemma slot_loop_total:
  assumes "0 < iv"
  shows "slot_loop sys now bk iv e c acc =
           Some (acc @ map (nth_slot sys now bk iv c) [0..<nat ((e - c) div (iv * ms_per_minute))])"
proof -
  define step where "step = iv * ms_per_minute"
  have step_pos: "0 < step" using assms by (simp add: step_def ms_per_minute_def)
  have "slot_loop sys now bk iv e c acc =
           Some (acc @ map (nth_slot sys now bk iv c) [0..<n])"
    if "n = nat ((e - c) div step)" for n
    using that
  proof (induction n arbitrary: c acc)
    case 0
    then have "(e - c) div step \<le> 0" by simp
    then have small: "e - c < step"
      using step_pos pos_imp_zdiv_pos_iff[of step "e - c"] by linarith
    show ?case
      using small
      by (subst slot_loop.simps) (simp add: isBefore_def isAfter_def addMinutes_def step_def)
  next
    case (Suc n)
    then have d: "(e - c) div step = int n + 1" by linarith
    have big: "step \<le> e - c"
      using d step_pos pos_imp_zdiv_pos_iff[of step "e - c"] by linarith
    have "(e - c) div step = ((e - (c + step)) + step) div step" by simp
    also have "\<dots> = (e - (c + step)) div step + 1"
      using step_pos by (subst div_add_self2) simp_all
    finally have "(e - (c + step)) div step = int n" using d by simp
    then have n: "n = nat ((e - (c + step)) div step)" by simp
    have cont: "c < e" "\<not> c + step > e" using big step_pos by auto
    show ?case
      using cont Suc.IH[OF n]
      apply (subst slot_loop.simps)
      apply (simp add: isBefore_def isAfter_def addMinutes_def Let_def map_nth_slot_Suc del: upt_Suc)
      apply (simp add: step_def nth_slot_def slot_flag_def list_ex_iff)
      done
  qed
  then show ?thesis by (simp add: step_def)
qed

lemma slot_loop_diverges:
  assumes "iv \<le> 0" "c < e"
  shows "slot_loop sys now bk iv e c acc = None"
proof (cases "slot_loop sys now bk iv e c acc")
  case None
  then show ?thesis .
next
  case (Some y)
  have "iv \<le> 0 \<longrightarrow> c < e \<longrightarrow> False"
  proof (rule slot_loop.raw_induct
      [where P = "\<lambda>sys now bk iv e c acc y. iv \<le> 0 \<longrightarrow> c < e \<longrightarrow> False", OF _ Some])
    fix f :: "tzone \<Rightarrow> instant \<Rightarrow> 'a BookedSlot_scheme list \<Rightarrow> int \<Rightarrow> instant \<Rightarrow> instant
                \<Rightarrow> TimeSlot list \<Rightarrow> TimeSlot list option"
    fix sys now bk iv e c acc y
    assume IH: "\<And>sys now bk iv e c acc y. f sys now bk iv e c acc = Some y \<Longrightarrow> iv \<le> 0 \<longrightarrow> c < e \<longrightarrow> False"
    assume body: "(if isBefore c e
      then let slotEndTime = addMinutes c iv
           in if isAfter slotEndTime e then Some acc
              else let meetsLead = meetsLeadTime now c;
                       withinHorizon = withinBookingHorizon sys now c;
                       isBooked = list_ex (\<lambda>booking. slotsOverlap (c, slotEndTime)
                               (slot_start booking, slot_end booking)) bk;
                       isAvailable = meetsLead \<and> withinHorizon \<and> \<not> isBooked
                   in f sys now bk iv e slotEndTime
                       (acc @ [\<lparr>start = c, end_at = slotEndTime, available = isAvailable\<rparr>])
      else Some acc) = Some y"
    show "iv \<le> 0 \<longrightarrow> c < e \<longrightarrow> False"
    proof (intro impI)
      assume iv: "iv \<le> 0" and ce: "c < e"
      have lt: "c + iv * ms_per_minute < e"
        using iv ce mult_nonneg_nonpos2[of ms_per_minute iv] by (simp add: ms_per_minute_def)
      from body ce lt obtain acc' where "f sys now bk iv e (c + iv * ms_per_minute) acc' = Some y"
        by (simp add: isBefore_def isAfter_def addMinutes_def Let_def)
      from IH[OF this] iv lt show False by simp
    qed
  qed
  with assms show ?thesis by simp
qed

section \<open>Booking and cancelling, one request at a time\<close>

lemma book_catch_messages:
  "book_catch (message LeadTimeTooShort) = BadRequest (message LeadTimeTooShort)"
  "book_catch (message HorizonExceeded) = InternalServerError"
  "book_catch (message DurationTooShort) = BadRequest (message DurationTooShort)"
  "book_catch (message DurationTooLong) = BadRequest (message DurationTooLong)"
  "book_catch (message EndNotAfterStart) = BadRequest (message EndNotAfterStart)"
  by (simp_all add: book_catch_def)

lemma slotsOverlap_iff: "slotsOverlap (s1, e1) (s2, e2) \<longleftrightarrow> s1 < e2 \<and> e1 > s2"
  by (simp add: slotsOverlap_def isBefore_def isAfter_def)

lemma conflicts_sym: "conflicts r q = conflicts q r"
  by (auto simp: conflicts_def slotsOverlap_iff)

lemma no_double_booking_append:
  "no_double_booking (xs @ [y]) \<longleftrightarrow> no_double_booking xs \<and> (\<forall>x \<in> set xs. \<not> conflicts x y)"
  by (induction xs) auto

lemma no_double_booking_map:
  assumes "\<And>r q. conflicts (f r) (f q) \<Longrightarrow> conflicts r q"
  shows "no_double_booking xs \<Longrightarrow> no_double_booking (map f xs)"
  using assms by (induction xs) auto

lemma book_check_responded_not_created:
  "book_check sys now tbl uid s e = Some r \<Longrightarrow> r \<noteq> Created b"
  by (auto simp: book_check_def book_catch_def split: sum.splits if_splits)

lemma validate_cases:
  "validateBookingSlot sys now (Date s) (Date e) \<in>
     {Inr (), Inl LeadTimeTooShort, Inl HorizonExceeded, Inl DurationTooShort, Inl DurationTooLong}"
  by (auto simp: validateBookingSlot_valid Let_def isAfter_def field_simps)

lemma book_rows_cases:
  "rows (snd (book sys now tbl uid bid cc nm em s e)) = rows tbl \<or>
   (\<exists>b. book_check sys now tbl uid s e = None \<and>
        rows (snd (book sys now tbl uid bid cc nm em s e)) = rows tbl @ [b] \<and>
        user_id b = uid \<and> slot_start b = s \<and> slot_end b = e \<and> status b = Confirmed)"
  by (auto simp: book_def book_insert_def insert_booking_def Let_def split: option.splits)

lemma book_check_None_no_conflict:
  assumes "book_check sys now tbl uid s e = None"
    and "r \<in> set (rows tbl)" "user_id r = uid" "status r = Confirmed"
  shows "\<not> slotsOverlap (s, e) (slot_start r, slot_end r)"
proof
  assume "slotsOverlap (s, e) (slot_start r, slot_end r)"
  then have "sql_overlap (slot_start r) (slot_end r) s e" by (rule overlap_imp_sql)
  with assms(2-4) have "r \<in> set (existingBooking tbl uid s e)"
    by (simp add: existingBooking_def)
  then have "existingBooking tbl uid s e \<noteq> []" by auto
  with assms(1) show False
    by (auto simp: book_check_def split: sum.splits if_splits)
qed

lemma book_preserves:
  assumes "no_double_booking (rows tbl)"
  shows "no_double_booking (rows (snd (book sys now tbl uid bid cc nm em s e)))"
  using book_rows_cases[of sys now tbl uid bid cc nm em s e]
proof
  assume "rows (snd (book sys now tbl uid bid cc nm em s e)) = rows tbl"
  with assms show ?thesis by simp
next
  assume "\<exists>b. book_check sys now tbl uid s e = None \<and>
        rows (snd (book sys now tbl uid bid cc nm em s e)) = rows tbl @ [b] \<and>
        user_id b = uid \<and> slot_start b = s \<and> slot_end b = e \<and> status b = Confirmed"
  then obtain b where chk: "book_check sys now tbl uid s e = None"
    and r: "rows (snd (book sys now tbl uid bid cc nm em s e)) = rows tbl @ [b]"
    and b: "user_id b = uid" "slot_start b = s" "slot_end b = e" by blast
  have "\<not> conflicts x b" if "x \<in> set (rows tbl)" for x
  proof
    assume c: "conflicts x b"
    then have "user_id x = uid" "status x = Confirmed" using b by (auto simp: conflicts_def)
    from book_check_None_no_conflict[OF chk that this] c b show False
      by (auto simp: conflicts_def slotsOverlap_iff)
  qed
  with assms r show ?thesis by (simp add: no_double_booking_append)
qed

lemma cancel_preserves:
  assumes "no_double_booking (rows tbl)"
  shows "no_double_booking (rows (snd (cancel now tbl bid cc)))"
proof -
  have "no_double_booking (map (\<lambda>r. if row_id r = i then r\<lparr>status := Cancelled\<rparr> else r) (rows tbl))" for i
    using assms by (rule no_double_booking_map[rotated]) (auto simp: conflicts_def split: if_splits)
  then show ?thesis using assms
    by (auto simp: cancel_def split: list.splits)
qed

lemma book_conflict_rejected:
  assumes "r \<in> set (rows tbl)" "user_id r = uid" "status r = Confirmed"
    "slotsOverlap (s, e) (slot_start r, slot_end r)"
  shows "snd (book sys now tbl uid bid cc nm em s e) = tbl"
    and "fst (book sys now tbl uid bid cc nm em s e) \<noteq> Created b"
    and "validateBookingSlot sys now (Date s) (Date e) = Inr () \<Longrightarrow>
           book sys now tbl uid bid cc nm em s e = (SlotAlreadyBooked, tbl)"
proof -
  from book_check_None_no_conflict[OF _ assms(1-3)] assms(4)
  obtain resp where c: "book_check sys now tbl uid s e = Some resp"
    by (cases "book_check sys now tbl uid s e") auto
  then show "snd (book sys now tbl uid bid cc nm em s e) = tbl"
    by (simp add: book_def)
  from c book_check_responded_not_created[OF c, of b]
  show "fst (book sys now tbl uid bid cc nm em s e) \<noteq> Created b"
    by (simp add: book_def)
  assume "validateBookingSlot sys now (Date s) (Date e) = Inr ()"
  with c have "resp = SlotAlreadyBooked"
    by (auto simp: book_check_def split: if_splits)
  with c show "book sys now tbl uid bid cc nm em s e = (SlotAlreadyBooked, tbl)"
    by (simp add: book_def)
qed

text \<open>
  Handled one at a time, \<open>book\<close> and \<open>cancel\<close> keep confirmed reservations of one owner
  from overlapping, and a request whose interval overlaps a confirmed reservation of
  the owner leaves the table as it was; if the interval passes \<open>validateBookingSlot\<close>,
  the answer is \<open>SlotAlreadyBooked\<close>.
\<close>

lemma sequential_no_double_booking:
  "(no_double_booking (rows tbl) \<longrightarrow>
      no_double_booking (rows (snd (book sys now tbl uid bid cc nm em s e))) \<and>
      no_double_booking (rows (snd (cancel now tbl bid cc)))) \<and>
   ((\<exists>r \<in> set (rows tbl). user_id r = uid \<and> status r = Confirmed \<and>
        slotsOverlap (s, e) (slot_start r, slot_end r)) \<longrightarrow>
      snd (book sys now tbl uid bid cc nm em s e) = tbl \<and>
      (\<forall>b. fst (book sys now tbl uid bid cc nm em s e) \<noteq> Created b) \<and>
      (validateBookingSlot sys now (Date s) (Date e) = Inr () \<longrightarrow>
         book sys now tbl uid bid cc nm em s e = (SlotAlreadyBooked, tbl)))"
proof (intro conjI impI allI)
  assume "no_double_booking (rows tbl)"
  then show "no_double_booking (rows (snd (book sys now tbl uid bid cc nm em s e)))"
    by (rule book_preserves)
next
  assume "no_double_booking (rows tbl)"
  then show "no_double_booking (rows (snd (cancel now tbl bid cc)))"
    by (rule cancel_preserves)
next
  assume "\<exists>r \<in> set (rows tbl). user_id r = uid \<and> status r = Confirmed \<and>
        slotsOverlap (s, e) (slot_start r, slot_end r)"
  then show "snd (book sys now tbl uid bid cc nm em s e) = tbl"
    using book_conflict_rejected(1) by blast
next
  fix b
  assume "\<exists>r \<in> set (rows tbl). user_id r = uid \<and> status r = Confirmed \<and>
        slotsOverlap (s, e) (slot_start r, slot_end r)"
  then show "fst (book sys now tbl uid bid cc nm em s e) \<noteq> Created b"
    using book_conflict_rejected(2) by blast
next
  assume "\<exists>r \<in> set (rows tbl). user_id r = uid \<and> status r = Confirmed \<and>
        slotsOverlap (s, e) (slot_start r, slot_end r)"
    and "validateBookingSlot sys now (Date s) (Date e) = Inr ()"
  then show "book sys now tbl uid bid cc nm em s e = (SlotAlreadyBooked, tbl)"
    using book_conflict_rejected(3) by blast
qed

text \<open>
  Claim C7. For a row and a request whose ends are strictly after their starts, the
  condition of the \<open>SELECT\<close> in \<open>POST /book\<close> holds exactly when the two intervals
  overlap in the half-open sense of \<open>slotsOverlap\<close>.
\<close>

theorem sql_overlap_is_half_open_overlap:
  assumes "row_start < row_end" and "p2 < p3"
  shows "(sql_overlap row_start row_end p2 p3 \<longleftrightarrow>
            slotsOverlap (p2, p3) (row_start, row_end)) \<and>
         (sql_overlap row_start row_end p2 p3 \<longleftrightarrow> p2 < row_end \<and> p3 > row_start)"
proof -
  have "sql_overlap row_start row_end p2 p3 \<longleftrightarrow> slotsOverlap (p2, p3) (row_start, row_end)"
    using assms overlap_imp_sql sql_imp_overlap by blast
  then show ?thesis by (simp add: slotsOverlap_iff)
qed

theorem sql_overlap_is_half_open_overlap_witness:
  "(36000000 :: int) < 37800000 \<and> (37800000 :: int) < 39600000 \<and>
   \<not> sql_overlap 36000000 37800000 37800000 39600000 \<and>
   \<not> slotsOverlap (37800000, 39600000) (36000000, 37800000) \<and>
   sql_overlap 36000000 37800000 37740000 37860000 \<and>
   slotsOverlap (37740000, 37860000) (36000000, 37800000)"
  using sql_overlap_is_half_open_overlap[of 36000000 37800000 37800000 39600000]
    sql_overlap_is_half_open_overlap[of 36000000 37800000 37740000 37860000]
  by (simp add: slotsOverlap_iff)

lemma validate_invalid_start:
  "validateBookingSlot sys now InvalidDate slotEnd = Inl LeadTimeTooShort"
  by (simp add: validateBookingSlot_def on_date_def)

lemma validate_invalid_end:
  "validateBookingSlot sys now (Date s) InvalidDate =
     (if \<not> meetsLeadTime now s then Inl LeadTimeTooShort
      else if \<not> withinBookingHorizon sys now s then Inl HorizonExceeded
      else Inl EndNotAfterStart)"
  by (simp add: validateBookingSlot_def on_date_def on_dates_def num_minus_def num_divide_def
      num_less_def num_greater_def Let_def)

lemma validate_valid_not_last:
  "validateBookingSlot sys now (Date s) (Date e) \<noteq> Inl EndNotAfterStart"
  by (auto simp: validateBookingSlot_valid Let_def isAfter_def field_simps)

text \<open>
  Claim C10. With two valid dates \<open>validateBookingSlot\<close> never ends in its last error: a
  duration of at least 15 minutes puts the end strictly after the start, and an end
  that is not after the start is rejected by an earlier check. The last error is
  reached all the same, exactly when the start is a valid date that meets lead time and
  horizon and the end is \<open>Invalid Date\<close>: both duration checks compare with \<open>NaN\<close> and
  let it pass.
\<close>

theorem end_after_start_branch_needs_invalid_date:
  "(validateBookingSlot sys now slotStart slotEnd = Inl EndNotAfterStart \<longleftrightarrow>
      (\<exists>s. slotStart = Date s \<and> meetsLeadTime now s \<and> withinBookingHorizon sys now s) \<and>
      slotEnd = InvalidDate) \<and>
   validateBookingSlot sys now (Date s) (Date e) \<noteq> Inl EndNotAfterStart \<and>
   (\<not> real_of_int (e - s) / (1000 * 60) < 15 \<longrightarrow> isAfter e s) \<and>
   (\<not> isAfter e s \<longrightarrow>
      validateBookingSlot sys now (Date s) (Date e)
        \<in> {Inl LeadTimeTooShort, Inl HorizonExceeded, Inl DurationTooShort})"
proof (intro conjI)
  show "validateBookingSlot sys now slotStart slotEnd = Inl EndNotAfterStart \<longleftrightarrow>
      (\<exists>s. slotStart = Date s \<and> meetsLeadTime now s \<and> withinBookingHorizon sys now s) \<and>
      slotEnd = InvalidDate"
  proof (cases slotStart)
    case InvalidDate
    then show ?thesis by (simp add: validate_invalid_start)
  next
    case (Date t)
    show ?thesis
    proof (cases slotEnd)
      case InvalidDate
      with Date show ?thesis by (simp add: validate_invalid_end)
    next
      case (Date u)
      with \<open>slotStart = Date t\<close> show ?thesis by (simp add: validate_valid_not_last)
    qed
  qed
  show "validateBookingSlot sys now (Date s) (Date e) \<noteq> Inl EndNotAfterStart"
    by (rule validate_valid_not_last)
  show "\<not> real_of_int (e - s) / (1000 * 60) < 15 \<longrightarrow> isAfter e s"
    by (simp add: isAfter_def field_simps)
  show "\<not> isAfter e s \<longrightarrow>
      validateBookingSlot sys now (Date s) (Date e)
        \<in> {Inl LeadTimeTooShort, Inl HorizonExceeded, Inl DurationTooShort}"
    by (simp add: validateBookingSlot_valid Let_def isAfter_def field_simps)
qed

lemma sample_policy: "meetsLeadTime 0 36000000" "withinBookingHorizon (fixed_zone 0) 0 36000000"
  by (simp_all add: meetsLeadTime_def withinBookingHorizon_def addHours_def isAfter_def
      isBefore_def ms_per_hour_def ms_per_day_def)

theorem end_after_start_branch_needs_invalid_date_witness:
  "validateBookingSlot (fixed_zone 0) 0 (Date 36000000) InvalidDate = Inl EndNotAfterStart \<and>
   validateBookingSlot (fixed_zone 0) 0 (Date 36000000) (Date 35000000) \<noteq> Inl EndNotAfterStart \<and>
   \<not> real_of_int (36900000 - 36000000) / (1000 * 60) < 15 \<and> isAfter 36900000 36000000 \<and>
   \<not> isAfter 35000000 36000000 \<and>
   validateBookingSlot (fixed_zone 0) 0 (Date 36000000) (Date 35000000)
        \<in> {Inl LeadTimeTooShort, Inl HorizonExceeded, Inl DurationTooShort}"
proof -
  note t = end_after_start_branch_needs_invalid_date[of "fixed_zone 0" 0 "Date 36000000"
      InvalidDate 36000000 36900000]
  note u = end_after_start_branch_needs_invalid_date[of "fixed_zone 0" 0 "Date 36000000"
      InvalidDate 36000000 35000000]
  have rhs: "(\<exists>s. Date 36000000 = Date s \<and> meetsLeadTime 0 s \<and>
      withinBookingHorizon (fixed_zone 0) 0 s) \<and> InvalidDate = InvalidDate"
    using sample_policy by simp
  from t[THEN conjunct1, THEN iffD2, OF rhs]
  have a: "validateBookingSlot (fixed_zone 0) 0 (Date 36000000) InvalidDate = Inl EndNotAfterStart" .
  note b = u[THEN conjunct2, THEN conjunct1]
  have c: "\<not> real_of_int (36900000 - 36000000) / (1000 * 60) < 15" by simp
  note d = t[THEN conjunct2, THEN conjunct2, THEN conjunct1, THEN mp, OF c]
  have e: "\<not> isAfter 35000000 36000000" by (simp add: isAfter_def)
  note f = u[THEN conjunct2, THEN conjunct2, THEN conjunct2, THEN mp, OF e]
  show ?thesis by (intro conjI a b c d e f)
qed

text \<open>
  The claim as it is written, that the last branch is unreachable, fails for a request
  whose start is 10:00 on 1970-01-01, evaluated at 00:00, and whose end is
  \<open>Invalid Date\<close>.
\<close>

theorem invalid_end_date_reaches_last_branch_counterexample:
  "validateBookingSlot (fixed_zone 0) 0 (Date 36000000) InvalidDate = Inl EndNotAfterStart"
  using sample_policy by (simp add: validate_invalid_end)

lemma validate_duration:
  assumes "meetsLeadTime now slotStart" and "withinBookingHorizon sys now slotStart"
  shows "validateBookingSlot sys now (Date slotStart) (Date slotEnd) =
           (if slotEnd - slotStart < 15 * ms_per_minute then Inl DurationTooShort
            else if slotEnd - slotStart > 480 * ms_per_minute then Inl DurationTooLong
            else Inr ())"
  using assms
  by (simp add: validateBookingSlot_valid Let_def isAfter_def ms_per_minute_def field_simps)

lemma validate_ok_after_policy:
  assumes p: "meetsLeadTime now slotStart \<and> withinBookingHorizon sys now slotStart"
  shows "validateBookingSlot sys now (Date slotStart) (Date slotEnd) = Inr () \<longleftrightarrow>
         slotEnd > slotStart \<and> 15 * ms_per_minute \<le> slotEnd - slotStart \<and>
         slotEnd - slotStart \<le> 480 * ms_per_minute"
  using p by (auto simp: validate_duration ms_per_minute_def)

lemma validate_duration_boundaries:
  assumes p: "meetsLeadTime now slotStart \<and> withinBookingHorizon sys now slotStart"
  shows "validateBookingSlot sys now (Date slotStart) (Date (slotStart + 15 * ms_per_minute)) = Inr ()"
   "validateBookingSlot sys now (Date slotStart) (Date (slotStart + 15 * ms_per_minute - 1000)) = Inl DurationTooShort"
   "validateBookingSlot sys now (Date slotStart) (Date (slotStart + 480 * ms_per_minute)) = Inr ()"
   "validateBookingSlot sys now (Date slotStart) (Date (slotStart + 481 * ms_per_minute)) = Inl DurationTooLong"
  using p by (simp_all add: validate_duration ms_per_minute_def)

lemma withinBookingHorizon_fixed:
  "withinBookingHorizon (fixed_zone off) now slotStart \<longleftrightarrow> slotStart < now + 14 * ms_per_day"
    by (simp add: withinBookingHorizon_def isBefore_def)

lemma meetsLeadTime_iff: "meetsLeadTime now slotStart \<longleftrightarrow> slotStart > now + 2 * ms_per_hour"
  by (simp add: meetsLeadTime_def addHours_def isAfter_def)

lemma withinBookingHorizon_iff:
  "withinBookingHorizon sys now slotStart \<longleftrightarrow> slotStart < addDays sys now 14"
  by (simp add: withinBookingHorizon_def isBefore_def)

lemma meetsCancellationNotice_iff:
  "meetsCancellationNotice now slotStart \<longleftrightarrow> slotStart > now + 12 * ms_per_hour"
  by (simp add: meetsCancellationNotice_def addHours_def isAfter_def)

text \<open>
  Claim C4. The three predicates compare strictly: lead time is \<open>start > now + 2h\<close>,
  horizon is \<open>start < now + 14 days\<close> (fourteen calendar days of the host zone, which
  are \<open>14 * 24\<close> hours in a zone of fixed offset), cancellation notice is
  \<open>start > now + 12h\<close>. Once lead time and horizon hold, the validation succeeds
  exactly when the end is after the start and the length is between 15 and 480 minutes,
  both included: 15 and 480 minutes pass, 14 minutes 59 seconds and 481 minutes fail.
\<close>

theorem policy_boundaries_strict:
  "(meetsLeadTime now slotStart \<longleftrightarrow> slotStart > now + 2 * ms_per_hour) \<and>
   (withinBookingHorizon sys now slotStart \<longleftrightarrow> slotStart < addDays sys now 14) \<and>
   (withinBookingHorizon (fixed_zone off) now slotStart \<longleftrightarrow> slotStart < now + 14 * ms_per_day) \<and>
   (meetsCancellationNotice now slotStart \<longleftrightarrow> slotStart > now + 12 * ms_per_hour) \<and>
   \<not> meetsLeadTime now (now + 2 * ms_per_hour) \<and>
   meetsLeadTime now (now + 2 * ms_per_hour + 1000) \<and>
   (meetsLeadTime now slotStart \<and> withinBookingHorizon sys now slotStart \<longrightarrow>
      (validateBookingSlot sys now (Date slotStart) (Date slotEnd) = Inr () \<longleftrightarrow>
         slotEnd > slotStart \<and> 15 * ms_per_minute \<le> slotEnd - slotStart \<and>
         slotEnd - slotStart \<le> 480 * ms_per_minute) \<and>
      validateBookingSlot sys now (Date slotStart) (Date (slotStart + 15 * ms_per_minute)) = Inr () \<and>
      validateBookingSlot sys now (Date slotStart) (Date (slotStart + 15 * ms_per_minute - 1000)) = Inl DurationTooShort \<and>
      validateBookingSlot sys now (Date slotStart) (Date (slotStart + 480 * ms_per_minute)) = Inr () \<and>
      validateBookingSlot sys now (Date slotStart) (Date (slotStart + 481 * ms_per_minute)) = Inl DurationTooLong)"
proof -
  have a: "\<not> meetsLeadTime now (now + 2 * ms_per_hour)"
    by (simp add: meetsLeadTime_iff)
  have b: "meetsLeadTime now (now + 2 * ms_per_hour + 1000)"
    by (simp add: meetsLeadTime_iff)
  show ?thesis
  proof (intro conjI impI)
    assume p: "meetsLeadTime now slotStart \<and> withinBookingHorizon sys now slotStart"
    show "validateBookingSlot sys now (Date slotStart) (Date slotEnd) = Inr () \<longleftrightarrow>
         slotEnd > slotStart \<and> 15 * ms_per_minute \<le> slotEnd - slotStart \<and>
         slotEnd - slotStart \<le> 480 * ms_per_minute"
      by (rule validate_ok_after_policy[OF p])
    show "validateBookingSlot sys now (Date slotStart) (Date (slotStart + 15 * ms_per_minute)) = Inr ()"
      by (rule validate_duration_boundaries(1)[OF p])
    show "validateBookingSlot sys now (Date slotStart) (Date (slotStart + 15 * ms_per_minute - 1000)) = Inl DurationTooShort"
      by (rule validate_duration_boundaries(2)[OF p])
    show "validateBookingSlot sys now (Date slotStart) (Date (slotStart + 480 * ms_per_minute)) = Inr ()"
      by (rule validate_duration_boundaries(3)[OF p])
    show "validateBookingSlot sys now (Date slotStart) (Date (slotStart + 481 * ms_per_minute)) = Inl DurationTooLong"
      by (rule validate_duration_boundaries(4)[OF p])
  qed (rule meetsLeadTime_iff withinBookingHorizon_iff withinBookingHorizon_fixed meetsCancellationNotice_iff a b)+
qed

theorem policy_boundaries_strict_witness:
  "meetsLeadTime 0 36000000 \<and> withinBookingHorizon (fixed_zone 0) 0 36000000 \<and>
   validateBookingSlot (fixed_zone 0) 0 (Date 36000000) (Date 36900000) = Inr () \<and>
   validateBookingSlot (fixed_zone 0) 0 (Date 36000000) (Date 36899000) = Inl DurationTooShort \<and>
   validateBookingSlot (fixed_zone 0) 0 (Date 36000000) (Date 64800000) = Inr () \<and>
   validateBookingSlot (fixed_zone 0) 0 (Date 36000000) (Date 64860000) = Inl DurationTooLong"
proof -
  have h: "meetsLeadTime 0 36000000 \<and> withinBookingHorizon (fixed_zone 0) 0 36000000"
    by (simp add: meetsLeadTime_def withinBookingHorizon_def addHours_def isAfter_def
        isBefore_def ms_per_hour_def ms_per_day_def)
  note t = policy_boundaries_strict[of 0 36000000 "fixed_zone 0" 0 36900000]
  note u = t[THEN conjunct2, THEN conjunct2, THEN conjunct2, THEN conjunct2,
      THEN conjunct2, THEN conjunct2, THEN mp, OF h]
  from u[THEN conjunct2] have
    "validateBookingSlot (fixed_zone 0) 0 (Date 36000000) (Date 36900000) = Inr () \<and>
     validateBookingSlot (fixed_zone 0) 0 (Date 36000000) (Date 36899000) = Inl DurationTooShort \<and>
     validateBookingSlot (fixed_zone 0) 0 (Date 36000000) (Date 64800000) = Inr () \<and>
     validateBookingSlot (fixed_zone 0) 0 (Date 36000000) (Date 64860000) = Inl DurationTooLong"
    by (simp add: ms_per_minute_def)
  with h show ?thesis by simp
qed

section \<open>Cancelling\<close>

lemma filter_map_cancel:
  "filter (\<lambda>r. booking_id r = pid)
          (map (\<lambda>r. if row_id r = i then r\<lparr>status := Cancelled\<rparr> else r) xs) =
   map (\<lambda>r. if row_id r = i then r\<lparr>status := Cancelled\<rparr> else r)
       (filter (\<lambda>r. booking_id r = pid) xs)"
  by (induction xs) auto

lemma cancel_NotFound:
  "filter (\<lambda>r. booking_id r = pid) (rows tbl) = [] \<Longrightarrow> cancel now tbl pid code = (NotFound, tbl)"
  by (simp add: cancel_def)

lemma cancel_found:
  assumes "filter (\<lambda>r. booking_id r = pid) (rows tbl) = b # rest"
  shows "cancel now tbl pid code =
     (if status b = Cancelled then (AlreadyCancelled, tbl)
      else if cancel_code b \<noteq> code then (InvalidCancelCode, tbl)
      else if \<not> meetsCancellationNotice now (slot_start b) then (TooLateToCancel, tbl)
      else (CancelledOk (booking_id b) now,
            tbl \<lparr> rows := map (\<lambda>r. if row_id r = row_id b then r \<lparr> status := Cancelled \<rparr> else r)
                              (rows tbl) \<rparr>))"
  using assms by (simp add: cancel_def)

lemma filter_hd_holds:
  "filter P xs = b # rest \<Longrightarrow> P b"
  by (metis filter_eq_ConsD)

lemma cancel_success_then:
  assumes ok: "fst (cancel now tbl pid code) = CancelledOk pid' t"
  shows "status_of (snd (cancel now tbl pid code)) pid = Some Cancelled"
    and "cancel now' (snd (cancel now tbl pid code)) pid code' =
           (AlreadyCancelled, snd (cancel now tbl pid code))"
proof -
  obtain b rest where f: "filter (\<lambda>r. booking_id r = pid) (rows tbl) = b # rest"
    using ok by (cases "filter (\<lambda>r. booking_id r = pid) (rows tbl)") (auto simp: cancel_def)
  from ok have tbl': "snd (cancel now tbl pid code) =
      tbl \<lparr> rows := map (\<lambda>r. if row_id r = row_id b then r \<lparr> status := Cancelled \<rparr> else r) (rows tbl) \<rparr>"
    by (auto simp: cancel_found[OF f] split: if_splits)
  have f': "filter (\<lambda>r. booking_id r = pid) (rows (snd (cancel now tbl pid code))) =
      b\<lparr>status := Cancelled\<rparr> #
      map (\<lambda>r. if row_id r = row_id b then r \<lparr> status := Cancelled \<rparr> else r) rest"
    by (simp add: tbl' filter_map_cancel f)
  show "status_of (snd (cancel now tbl pid code)) pid = Some Cancelled"
    by (simp add: status_of_def f')
  show "cancel now' (snd (cancel now tbl pid code)) pid code' =
           (AlreadyCancelled, snd (cancel now tbl pid code))"
    by (simp add: cancel_found[OF f'])
qed

text \<open>
  Claim C8. \<open>cancel\<close> checks in this order: no reservation with the identifier gives
  \<open>NotFound\<close>; a cancelled one gives \<open>AlreadyCancelled\<close>; a code that is not equal to
  the stored one, character by character, gives \<open>InvalidCancelCode\<close>; a start that does
  not meet the notice gives \<open>TooLateToCancel\<close>; otherwise it succeeds. After a success
  the status is cancelled, any further cancel of the same identifier answers
  \<open>AlreadyCancelled\<close>, and the status is still cancelled.
\<close>

theorem cancel_check_order:
  "(filter (\<lambda>r. booking_id r = pid) (rows tbl) = [] \<longrightarrow>
      cancel now tbl pid code = (NotFound, tbl)) \<and>
   (\<forall>b rest. filter (\<lambda>r. booking_id r = pid) (rows tbl) = b # rest \<longrightarrow>
      (status b = Cancelled \<longrightarrow> cancel now tbl pid code = (AlreadyCancelled, tbl)) \<and>
      (status b \<noteq> Cancelled \<and> cancel_code b \<noteq> code \<longrightarrow>
         cancel now tbl pid code = (InvalidCancelCode, tbl)) \<and>
      (status b \<noteq> Cancelled \<and> cancel_code b = code \<and>
       \<not> meetsCancellationNotice now (slot_start b) \<longrightarrow>
         cancel now tbl pid code = (TooLateToCancel, tbl)) \<and>
      (status b \<noteq> Cancelled \<and> cancel_code b = code \<and>
       meetsCancellationNotice now (slot_start b) \<longrightarrow>
         fst (cancel now tbl pid code) = CancelledOk pid now)) \<and>
   (\<forall>pid' t. fst (cancel now tbl pid code) = CancelledOk pid' t \<longrightarrow>
      status_of (snd (cancel now tbl pid code)) pid = Some Cancelled \<and>
      cancel now' (snd (cancel now tbl pid code)) pid code' =
        (AlreadyCancelled, snd (cancel now tbl pid code)) \<and>
      status_of (snd (cancel now' (snd (cancel now tbl pid code)) pid code')) pid
        = Some Cancelled)"
proof (intro conjI allI impI)
  fix b rest
  assume f: "filter (\<lambda>r. booking_id r = pid) (rows tbl) = b # rest"
  {
    assume "status b = Cancelled"
    then show "cancel now tbl pid code = (AlreadyCancelled, tbl)"
      by (simp add: cancel_found[OF f])
  }
  {
    assume "status b \<noteq> Cancelled \<and> cancel_code b \<noteq> code"
    then show "cancel now tbl pid code = (InvalidCancelCode, tbl)"
      by (simp add: cancel_found[OF f])
  }
  {
    assume "status b \<noteq> Cancelled \<and> cancel_code b = code \<and>
       \<not> meetsCancellationNotice now (slot_start b)"
    then show "cancel now tbl pid code = (TooLateToCancel, tbl)"
      by (simp add: cancel_found[OF f])
  }
  {
    assume "status b \<noteq> Cancelled \<and> cancel_code b = code \<and>
       meetsCancellationNotice now (slot_start b)"
    then show "fst (cancel now tbl pid code) = CancelledOk pid now"
      using filter_hd_holds[OF f] by (simp add: cancel_found[OF f])
  }
next
  assume "filter (\<lambda>r. booking_id r = pid) (rows tbl) = []"
  then show "cancel now tbl pid code = (NotFound, tbl)" by (rule cancel_NotFound)
next
  fix pid' t
  assume ok: "fst (cancel now tbl pid code) = CancelledOk pid' t"
  show "status_of (snd (cancel now tbl pid code)) pid = Some Cancelled"
    by (rule cancel_success_then(1)[OF ok])
  show a: "cancel now' (snd (cancel now tbl pid code)) pid code' =
        (AlreadyCancelled, snd (cancel now tbl pid code))"
    by (rule cancel_success_then(2)[OF ok])
  show "status_of (snd (cancel now' (snd (cancel now tbl pid code)) pid code')) pid
        = Some Cancelled"
    by (simp add: a cancel_success_then(1)[OF ok])
qed

theorem cancel_check_order_witness:
  "cancel 0 sample_table ''00000000-0000-4000-8000-000000000000'' ''AB12CD'' = (NotFound, sample_table) \<and>
   cancel 0 sample_table ''123e4567-e89b-12d3-a456-426614174000'' ''ab12cd''
     = (InvalidCancelCode, sample_table) \<and>
   cancel 82800000 sample_table ''123e4567-e89b-12d3-a456-426614174000'' ''AB12CD''
     = (TooLateToCancel, sample_table) \<and>
   fst (cancel 0 sample_table ''123e4567-e89b-12d3-a456-426614174000'' ''AB12CD'')
     = CancelledOk ''123e4567-e89b-12d3-a456-426614174000'' 0 \<and>
   status_of (snd (cancel 0 sample_table ''123e4567-e89b-12d3-a456-426614174000'' ''AB12CD''))
     ''123e4567-e89b-12d3-a456-426614174000'' = Some Cancelled \<and>
   fst (cancel 1000 (snd (cancel 0 sample_table ''123e4567-e89b-12d3-a456-426614174000'' ''AB12CD''))
     ''123e4567-e89b-12d3-a456-426614174000'' ''AB12CD'') = AlreadyCancelled"
proof -
  let ?pid = "''123e4567-e89b-12d3-a456-426614174000''"
  have nf: "filter (\<lambda>r. booking_id r = ''00000000-0000-4000-8000-000000000000'') (rows sample_table) = []"
    by (simp add: sample_table_def sample_row_def)
  have f: "filter (\<lambda>r. booking_id r = ?pid) (rows sample_table) = sample_row # []"
    by (simp add: sample_table_def sample_row_def)
  have st: "status sample_row \<noteq> Cancelled" "cancel_code sample_row \<noteq> ''ab12cd''"
    "cancel_code sample_row = ''AB12CD''"
    by (simp_all add: sample_row_def)
  have late: "\<not> meetsCancellationNotice 82800000 (slot_start sample_row)"
    by (simp add: sample_row_def meetsCancellationNotice_def addHours_def isAfter_def ms_per_hour_def)
  have early: "meetsCancellationNotice 0 (slot_start sample_row)"
    by (simp add: sample_row_def meetsCancellationNotice_def addHours_def isAfter_def ms_per_hour_def)
  note a = cancel_check_order[of "''00000000-0000-4000-8000-000000000000''" sample_table 0 "''AB12CD''",
      THEN conjunct1, THEN mp, OF nf]
  note b = cancel_check_order[of ?pid sample_table 0 "''ab12cd''",
      THEN conjunct2, THEN conjunct1, THEN spec, THEN spec, THEN mp, OF f]
  note c = cancel_check_order[of ?pid sample_table 82800000 "''AB12CD''",
      THEN conjunct2, THEN conjunct1, THEN spec, THEN spec, THEN mp, OF f]
  note d = cancel_check_order[of ?pid sample_table 0 "''AB12CD''" 1000 "''AB12CD''"]
  note d1 = d[THEN conjunct2, THEN conjunct1, THEN spec, THEN spec, THEN mp, OF f]
  from b st have b': "cancel 0 sample_table ?pid ''ab12cd'' = (InvalidCancelCode, sample_table)"
    by simp
  from c st late have c': "cancel 82800000 sample_table ?pid ''AB12CD'' = (TooLateToCancel, sample_table)"
    by simp
  from d1 st early have d': "fst (cancel 0 sample_table ?pid ''AB12CD'') = CancelledOk ?pid 0"
    by simp
  note e = d[THEN conjunct2, THEN conjunct2, THEN spec, THEN spec, THEN mp, OF d']
  from e have e': "status_of (snd (cancel 0 sample_table ?pid ''AB12CD'')) ?pid = Some Cancelled"
    "fst (cancel 1000 (snd (cancel 0 sample_table ?pid ''AB12CD'')) ?pid ''AB12CD'') = AlreadyCancelled"
    by simp_all
  from a b' c' d' e' show ?thesis by simp
qed

section \<open>Two overlapping bookings at once\<close>

lemma validate_a: "validateBookingSlot (fixed_zone 0) 0 (Date 122400000) (Date 126000000) = Inr ()"
  by (simp add: validateBookingSlot_valid meetsLeadTime_def withinBookingHorizon_def
      addHours_def isAfter_def isBefore_def ms_per_hour_def ms_per_day_def)

lemma validate_b: "validateBookingSlot (fixed_zone 0) 0 (Date 124200000) (Date 127800000) = Inr ()"
  by (simp add: validateBookingSlot_valid meetsLeadTime_def withinBookingHorizon_def
      addHours_def isAfter_def isBefore_def ms_per_hour_def ms_per_day_def)

text \<open>
  Claim C1. The claim asks that no two confirmed reservations of an owner ever overlap,
  that every operation keeps it so, and that a booking whose interval overlaps a
  confirmed reservation of the owner writes no row. With the two requests of owner 7
  checked before either is inserted, the table starts without overlap and ends with two
  confirmed rows that overlap: the \<open>INSERT\<close> of the second request runs on a table that
  already holds the first request's confirmed row, which its interval overlaps, and it
  writes its row and is answered \<open>Created\<close>.
\<close>

theorem interleaved_bookings_break_invariant:
  "no_double_booking (rows \<lparr> rows = [], next_id = 1 \<rparr>) \<and>
   book_two_checks_first (fixed_zone 0) 0 \<lparr> rows = [], next_id = 1 \<rparr> request_a request_b =
     (Created row_a, Created row_b, \<lparr> rows = [row_a, row_b], next_id = 3 \<rparr>) \<and>
   \<not> no_double_booking (rows \<lparr> rows = [row_a, row_b], next_id = 3 \<rparr>) \<and>
   user_id row_a = req_user request_b \<and> status row_a = Confirmed \<and>
   slotsOverlap (req_start request_b, req_end request_b) (slot_start row_a, slot_end row_a) \<and>
   book_insert 0 \<lparr> rows = [row_a], next_id = 2 \<rparr> (req_user request_b)
       (req_booking_id request_b) (req_cancel_code request_b) (req_name request_b)
       (req_email request_b) (req_start request_b) (req_end request_b) =
     (Created row_b, \<lparr> rows = [row_a, row_b], next_id = 3 \<rparr>)"
proof -
  have 1: "book_two_checks_first (fixed_zone 0) 0 \<lparr> rows = [], next_id = 1 \<rparr> request_a request_b =
     (Created row_a, Created row_b, \<lparr> rows = [row_a, row_b], next_id = 3 \<rparr>)"
    by (simp add: book_two_checks_first_def book_check_def existingBooking_def request_a_def
        request_b_def validate_a validate_b book_insert_def insert_booking_def Let_def
        idx_bookings_no_overlap_violated_def row_a_def row_b_def)
  have 2: "conflicts row_a row_b"
    by (simp add: conflicts_def row_a_def row_b_def slotsOverlap_def isBefore_def isAfter_def)
  then have 3: "\<not> no_double_booking (rows \<lparr> rows = [row_a, row_b], next_id = 3 \<rparr>)"
    by simp
  have 4: "user_id row_a = req_user request_b" "status row_a = Confirmed"
    "slotsOverlap (req_start request_b, req_end request_b) (slot_start row_a, slot_end row_a)"
    by (simp_all add: row_a_def request_b_def slotsOverlap_def isBefore_def isAfter_def)
  have 5: "book_insert 0 \<lparr> rows = [row_a], next_id = 2 \<rparr> (req_user request_b)
       (req_booking_id request_b) (req_cancel_code request_b) (req_name request_b)
       (req_email request_b) (req_start request_b) (req_end request_b) =
     (Created row_b, \<lparr> rows = [row_a, row_b], next_id = 3 \<rparr>)"
    by (simp add: request_b_def book_insert_def insert_booking_def Let_def
        idx_bookings_no_overlap_violated_def row_a_def row_b_def)
  have 0: "no_double_booking (rows \<lparr> rows = [], next_id = 1 \<rparr>)" by simp
  show ?thesis by (intro conjI 0 1 3 4 5)
qed

text \<open>
  Claim C2. The claim asks that of two simultaneous overlapping attempts exactly one
  succeeds and the other observes \<open>SlotAlreadyBooked\<close>. On an empty table, two requests
  of owner 7 for 10:00 to 11:00 and 10:30 to 11:30, both checked before either is
  inserted, are both answered \<open>Created\<close> and leave two confirmed rows that overlap: the
  unique index covers equal intervals only. With equal intervals the second insert
  fails on the index and the answer is \<open>InternalServerError\<close>, not \<open>SlotAlreadyBooked\<close>.
\<close>

theorem concurrent_overlapping_bookings_both_commit:
  "book_two_checks_first (fixed_zone 0) 0 \<lparr> rows = [], next_id = 1 \<rparr> request_a request_b =
     (Created row_a, Created row_b, \<lparr> rows = [row_a, row_b], next_id = 3 \<rparr>) \<and>
   conflicts row_a row_b \<and>
   book_two_checks_first (fixed_zone 0) 0 \<lparr> rows = [], next_id = 1 \<rparr> request_a
       (request_b \<lparr> req_start := 122400000, req_end := 126000000 \<rparr>) =
     (Created row_a, InternalServerError, \<lparr> rows = [row_a], next_id = 3 \<rparr>)"
proof -
  have 1: "book_two_checks_first (fixed_zone 0) 0 \<lparr> rows = [], next_id = 1 \<rparr> request_a request_b =
     (Created row_a, Created row_b, \<lparr> rows = [row_a, row_b], next_id = 3 \<rparr>)"
    by (simp add: book_two_checks_first_def book_check_def existingBooking_def request_a_def
        request_b_def validate_a validate_b book_insert_def insert_booking_def Let_def
        idx_bookings_no_overlap_violated_def row_a_def row_b_def)
  have 2: "conflicts row_a row_b"
    by (simp add: conflicts_def row_a_def row_b_def slotsOverlap_def isBefore_def isAfter_def)
  have 3: "book_two_checks_first (fixed_zone 0) 0 \<lparr> rows = [], next_id = 1 \<rparr> request_a
       (request_b \<lparr> req_start := 122400000, req_end := 126000000 \<rparr>) =
     (Created row_a, InternalServerError, \<lparr> rows = [row_a], next_id = 3 \<rparr>)"
    by (simp add: book_two_checks_first_def book_check_def existingBooking_def request_a_def
        request_b_def validate_a book_insert_def insert_booking_def Let_def
        idx_bookings_no_overlap_violated_def row_a_def)
  from 1 2 3 show ?thesis by blast
qed

section \<open>The slots of a rule\<close>

lemma nth_slot_sel [simp]:
  "start (nth_slot sys now bk iv c k) = c + int k * (iv * ms_per_minute)"
  "end_at (nth_slot sys now bk iv c k) = c + (int k + 1) * (iv * ms_per_minute)"
  "available (nth_slot sys now bk iv c k) =
     slot_flag sys now bk (c + int k * (iv * ms_per_minute)) (c + (int k + 1) * (iv * ms_per_minute))"
  by (simp_all add: nth_slot_def)

lemma slot_loop_Some:
  assumes "slot_loop sys now bk iv e c acc = Some ys"
  shows "\<exists>n. ys = acc @ map (nth_slot sys now bk iv c) [0..<n] \<and>
             (\<forall>k<n. c + (int k + 1) * (iv * ms_per_minute) \<le> e) \<and>
             \<not> (c + int n * (iv * ms_per_minute) < e \<and>
                c + (int n + 1) * (iv * ms_per_minute) \<le> e)"
proof (cases "0 < iv")
  case True
  define step where "step = iv * ms_per_minute"
  define q where "q = (e - c) div step"
  have step_pos: "0 < step" using True by (simp add: step_def ms_per_minute_def)
  have lo: "q * step \<le> e - c" unfolding q_def
    using step_pos by (metis mult.commute pos_mod_sign mult_div_mod_eq add.commute le_add_same_cancel1 mod_mult_div_eq)
  have hi: "e - c < (q + 1) * step" unfolding q_def
    using step_pos by (metis add.commute mult.commute int_distrib(1) mult_1 pos_mod_bound div_mult_mod_eq add_less_cancel_left)
  from assms slot_loop_total[OF True, of sys now bk e c acc]
  have ys: "ys = acc @ map (nth_slot sys now bk iv c) [0..<nat q]"
    by (simp add: q_def step_def)
  have a: "c + (int k + 1) * step \<le> e" if "k < nat q" for k
  proof -
    from that have "int k + 1 \<le> q" by linarith
    then have "(int k + 1) * step \<le> q * step" using step_pos by simp
    with lo show ?thesis by linarith
  qed
  have b: "\<not> (c + int (nat q) * step < e \<and> c + (int (nat q) + 1) * step \<le> e)"
  proof (cases "0 \<le> q")
    case True
    then have "int (nat q) = q" by simp
    with hi show ?thesis by simp
  next
    case False
    then have "q + 1 \<le> 0" by simp
    then have "(q + 1) * step \<le> 0" using step_pos by (simp add: mult_le_0_iff)
    with hi False show ?thesis by simp
  qed
  from ys a b show ?thesis unfolding step_def by blast
next
  case False
  then have iv: "iv \<le> 0" by simp
  have nce: "\<not> c < e"
  proof
    assume "c < e"
    from slot_loop_diverges[OF iv this, of sys now bk acc] assms show False by simp
  qed
  with assms have "ys = acc" by (simp add: slot_loop_exit)
  with nce have "ys = acc @ map (nth_slot sys now bk iv c) [0..<0] \<and>
             (\<forall>k<0::nat. c + (int k + 1) * (iv * ms_per_minute) \<le> e) \<and>
             \<not> (c + int 0 * (iv * ms_per_minute) < e \<and>
                c + (int 0 + 1) * (iv * ms_per_minute) \<le> e)" by simp
  then show ?thesis by blast
qed

lemma rules_loop_per_rule:
  assumes "rules_loop sys zones now d bk rs acc = Some (Inr out)"
  shows "\<exists>per. length per = length rs \<and> out = acc @ concat per \<and>
     (\<forall>i < length rs. \<exists>a b.
        timeStringToUTC sys zones (start_time (rs ! i)) d (timezone (rs ! i)) = Inr a \<and>
        timeStringToUTC sys zones (end_time (rs ! i)) d (timezone (rs ! i)) = Inr b \<and>
        (\<forall>k < length (per ! i).
           start (per ! i ! k) = a + int k * (interval_minutes (rs ! i) * ms_per_minute) \<and>
           end_at (per ! i ! k) = start (per ! i ! k) + interval_minutes (rs ! i) * ms_per_minute \<and>
           end_at (per ! i ! k) \<le> b) \<and>
        \<not> (a + int (length (per ! i)) * (interval_minutes (rs ! i) * ms_per_minute) < b \<and>
           a + (int (length (per ! i)) + 1) * (interval_minutes (rs ! i) * ms_per_minute) \<le> b))"
  using assms
proof (induction rs arbitrary: acc)
  case Nil
  then show ?case by simp
next
  case (Cons r rs)
  from Cons.prems obtain a b acc' where
    sa: "timeStringToUTC sys zones (start_time r) d (timezone r) = Inr a"
    and sb: "timeStringToUTC sys zones (end_time r) d (timezone r) = Inr b"
    and loop: "slot_loop sys now bk (interval_minutes r) b a acc = Some acc'"
    and rest: "rules_loop sys zones now d bk rs acc' = Some (Inr out)"
    by (auto split: sum.splits option.splits)
  from slot_loop_Some[OF loop] obtain n where
    acc': "acc' = acc @ map (nth_slot sys now bk (interval_minutes r) a) [0..<n]"
    and fit: "\<forall>k<n. a + (int k + 1) * (interval_minutes r * ms_per_minute) \<le> b"
    and stop: "\<not> (a + int n * (interval_minutes r * ms_per_minute) < b \<and>
                a + (int n + 1) * (interval_minutes r * ms_per_minute) \<le> b)"
    by blast
  let ?em = "map (nth_slot sys now bk (interval_minutes r) a) [0..<n]"
  from Cons.IH[OF rest] obtain per where
    len: "length per = length rs" and out: "out = acc' @ concat per"
    and each: "\<forall>i < length rs. \<exists>a b.
        timeStringToUTC sys zones (start_time (rs ! i)) d (timezone (rs ! i)) = Inr a \<and>
        timeStringToUTC sys zones (end_time (rs ! i)) d (timezone (rs ! i)) = Inr b \<and>
        (\<forall>k < length (per ! i).
           start (per ! i ! k) = a + int k * (interval_minutes (rs ! i) * ms_per_minute) \<and>
           end_at (per ! i ! k) = start (per ! i ! k) + interval_minutes (rs ! i) * ms_per_minute \<and>
           end_at (per ! i ! k) \<le> b) \<and>
        \<not> (a + int (length (per ! i)) * (interval_minutes (rs ! i) * ms_per_minute) < b \<and>
           a + (int (length (per ! i)) + 1) * (interval_minutes (rs ! i) * ms_per_minute) \<le> b)"
    by blast
  have head: "(\<forall>k < length ?em.
           start (?em ! k) = a + int k * (interval_minutes r * ms_per_minute) \<and>
           end_at (?em ! k) = start (?em ! k) + interval_minutes r * ms_per_minute \<and>
           end_at (?em ! k) \<le> b) \<and>
        \<not> (a + int (length ?em) * (interval_minutes r * ms_per_minute) < b \<and>
           a + (int (length ?em) + 1) * (interval_minutes r * ms_per_minute) \<le> b)"
    using fit stop by (simp add: algebra_simps)
  have "length (?em # per) = length (r # rs)" using len by simp
  moreover have "out = acc @ concat (?em # per)" using out acc' by simp
  moreover have "\<forall>i < length (r # rs). \<exists>a b.
        timeStringToUTC sys zones (start_time ((r # rs) ! i)) d (timezone ((r # rs) ! i)) = Inr a \<and>
        timeStringToUTC sys zones (end_time ((r # rs) ! i)) d (timezone ((r # rs) ! i)) = Inr b \<and>
        (\<forall>k < length ((?em # per) ! i).
           start ((?em # per) ! i ! k) = a + int k * (interval_minutes ((r # rs) ! i) * ms_per_minute) \<and>
           end_at ((?em # per) ! i ! k) = start ((?em # per) ! i ! k) + interval_minutes ((r # rs) ! i) * ms_per_minute \<and>
           end_at ((?em # per) ! i ! k) \<le> b) \<and>
        \<not> (a + int (length ((?em # per) ! i)) * (interval_minutes ((r # rs) ! i) * ms_per_minute) < b \<and>
           a + (int (length ((?em # per) ! i)) + 1) * (interval_minutes ((r # rs) ! i) * ms_per_minute) \<le> b)"
  proof (intro allI impI)
    fix i assume i: "i < length (r # rs)"
    show "\<exists>a b.
        timeStringToUTC sys zones (start_time ((r # rs) ! i)) d (timezone ((r # rs) ! i)) = Inr a \<and>
        timeStringToUTC sys zones (end_time ((r # rs) ! i)) d (timezone ((r # rs) ! i)) = Inr b \<and>
        (\<forall>k < length ((?em # per) ! i).
           start ((?em # per) ! i ! k) = a + int k * (interval_minutes ((r # rs) ! i) * ms_per_minute) \<and>
           end_at ((?em # per) ! i ! k) = start ((?em # per) ! i ! k) + interval_minutes ((r # rs) ! i) * ms_per_minute \<and>
           end_at ((?em # per) ! i ! k) \<le> b) \<and>
        \<not> (a + int (length ((?em # per) ! i)) * (interval_minutes ((r # rs) ! i) * ms_per_minute) < b \<and>
           a + (int (length ((?em # per) ! i)) + 1) * (interval_minutes ((r # rs) ! i) * ms_per_minute) \<le> b)"
    proof (cases i)
      case 0
      show ?thesis unfolding 0 nth_Cons_0 using sa sb head by blast
    next
      case (Suc j)
      with i have "j < length rs" by simp
      with each show ?thesis unfolding Suc nth_Cons_Suc by blast
    qed
  qed
  ultimately show ?case by blast
qed

lemma rules_loop_returns_slots:
  assumes "\<forall>r \<in> set rs. 0 < interval_minutes r \<and>
      (\<exists>a. timeStringToUTC sys zones (start_time r) d (timezone r) = Inr a) \<and>
      (\<exists>b. timeStringToUTC sys zones (end_time r) d (timezone r) = Inr b)"
  shows "\<exists>out. rules_loop sys zones now d bk rs acc = Some (Inr out)"
  using assms
proof (induction rs arbitrary: acc)
  case Nil
  then show ?case by simp
next
  case (Cons r rs)
  then obtain a b where "timeStringToUTC sys zones (start_time r) d (timezone r) = Inr a"
    "timeStringToUTC sys zones (end_time r) d (timezone r) = Inr b" "0 < interval_minutes r"
    by auto
  moreover from Cons have "\<And>acc. \<exists>out. rules_loop sys zones now d bk rs acc = Some (Inr out)"
    by simp
  ultimately show ?case by (simp add: slot_loop_total)
qed

text \<open>
  Claim C6. Let \<open>rulesForDay\<close> be the rules of the weekday of the date. When every one of
  them has a positive interval and times that resolve, the generator returns. Whatever
  it returns is, sorted by start, the slots of the rules one after another, and the
  slots of a rule are these: with \<open>slotStart\<close> and \<open>slotEnd\<close> the instants its
  \<open>start_time\<close> and \<open>end_time\<close> resolve to, the \<open>k\<close>-th slot starts \<open>k\<close> times the rule's
  \<open>interval_minutes\<close> after \<open>slotStart\<close>, is exactly one interval long and ends no later
  than \<open>slotEnd\<close>; and the next interval in line is not emitted because it would not fit
  before \<open>slotEnd\<close>.
\<close>

theorem generator_steps_each_rule:
  assumes day: "rulesForDay = filter (\<lambda>rule. day_of_week rule = getDay sys date') availabilityRules"
  shows "((\<forall>r \<in> set rulesForDay. 0 < interval_minutes r \<and>
        (\<exists>a. timeStringToUTC sys zones (start_time r) date' (timezone r) = Inr a) \<and>
        (\<exists>b. timeStringToUTC sys zones (end_time r) date' (timezone r) = Inr b)) \<longrightarrow>
      (\<exists>slots. generateSlotsForDate sys zones now date' availabilityRules bookedSlots
                  hostTimezone = Some (Inr slots))) \<and>
   (\<forall>slots. generateSlotsForDate sys zones now date' availabilityRules bookedSlots hostTimezone
               = Some (Inr slots) \<longrightarrow>
      (\<exists>per_rule. length per_rule = length rulesForDay \<and>
         slots = sort_key start (concat per_rule) \<and>
         (\<forall>i < length rulesForDay. \<exists>slotStart slotEnd.
            timeStringToUTC sys zones (start_time (rulesForDay ! i)) date'
                (timezone (rulesForDay ! i)) = Inr slotStart \<and>
            timeStringToUTC sys zones (end_time (rulesForDay ! i)) date'
                (timezone (rulesForDay ! i)) = Inr slotEnd \<and>
            (\<forall>k < length (per_rule ! i).
               start (per_rule ! i ! k) =
                 slotStart + int k * (interval_minutes (rulesForDay ! i) * ms_per_minute) \<and>
               end_at (per_rule ! i ! k) =
                 start (per_rule ! i ! k) + interval_minutes (rulesForDay ! i) * ms_per_minute \<and>
               end_at (per_rule ! i ! k) \<le> slotEnd) \<and>
            \<not> (slotStart + int (length (per_rule ! i))
                   * (interval_minutes (rulesForDay ! i) * ms_per_minute) < slotEnd \<and>
               slotStart + (int (length (per_rule ! i)) + 1)
                   * (interval_minutes (rulesForDay ! i) * ms_per_minute) \<le> slotEnd))))"
  unfolding day
proof (intro conjI impI allI)
  let ?rs = "filter (\<lambda>rule. day_of_week rule = getDay sys date') availabilityRules"
  assume "\<forall>r \<in> set ?rs. 0 < interval_minutes r \<and>
        (\<exists>a. timeStringToUTC sys zones (start_time r) date' (timezone r) = Inr a) \<and>
        (\<exists>b. timeStringToUTC sys zones (end_time r) date' (timezone r) = Inr b)"
  from rules_loop_returns_slots[OF this, of now bookedSlots "[]"]
  obtain out where "rules_loop sys zones now date' bookedSlots ?rs [] = Some (Inr out)" by blast
  then show "\<exists>slots. generateSlotsForDate sys zones now date' availabilityRules bookedSlots
                  hostTimezone = Some (Inr slots)"
    by (simp add: generateSlotsForDate_def)
next
  let ?rs = "filter (\<lambda>rule. day_of_week rule = getDay sys date') availabilityRules"
  fix slots
  assume g: "generateSlotsForDate sys zones now date' availabilityRules bookedSlots hostTimezone
               = Some (Inr slots)"
  then obtain z where
    z: "rules_loop sys zones now date' bookedSlots ?rs [] = Some z"
    and m: "map_sum id (sort_key start) z = Inr slots"
    by (auto simp: generateSlotsForDate_def)
  from m obtain raw where zr: "z = Inr raw" and s: "slots = sort_key start raw"
    by (cases z) auto
  from rules_loop_per_rule[OF z[unfolded zr]] obtain per where
    len: "length per = length ?rs" and raw: "raw = [] @ concat per"
    and each: "\<forall>i < length ?rs. \<exists>a b.
        timeStringToUTC sys zones (start_time (?rs ! i)) date' (timezone (?rs ! i)) = Inr a \<and>
        timeStringToUTC sys zones (end_time (?rs ! i)) date' (timezone (?rs ! i)) = Inr b \<and>
        (\<forall>k < length (per ! i).
           start (per ! i ! k) = a + int k * (interval_minutes (?rs ! i) * ms_per_minute) \<and>
           end_at (per ! i ! k) = start (per ! i ! k) + interval_minutes (?rs ! i) * ms_per_minute \<and>
           end_at (per ! i ! k) \<le> b) \<and>
        \<not> (a + int (length (per ! i)) * (interval_minutes (?rs ! i) * ms_per_minute) < b \<and>
           a + (int (length (per ! i)) + 1) * (interval_minutes (?rs ! i) * ms_per_minute) \<le> b)"
    by blast
  have s': "slots = sort_key start (concat per)" using s raw by simp
  show "\<exists>per_rule. length per_rule = length ?rs \<and>
         slots = sort_key start (concat per_rule) \<and>
         (\<forall>i < length ?rs. \<exists>slotStart slotEnd.
            timeStringToUTC sys zones (start_time (?rs ! i)) date'
                (timezone (?rs ! i)) = Inr slotStart \<and>
            timeStringToUTC sys zones (end_time (?rs ! i)) date'
                (timezone (?rs ! i)) = Inr slotEnd \<and>
            (\<forall>k < length (per_rule ! i).
               start (per_rule ! i ! k) =
                 slotStart + int k * (interval_minutes (?rs ! i) * ms_per_minute) \<and>
               end_at (per_rule ! i ! k) =
                 start (per_rule ! i ! k) + interval_minutes (?rs ! i) * ms_per_minute \<and>
               end_at (per_rule ! i ! k) \<le> slotEnd) \<and>
            \<not> (slotStart + int (length (per_rule ! i))
                   * (interval_minutes (?rs ! i) * ms_per_minute) < slotEnd \<and>
               slotStart + (int (length (per_rule ! i)) + 1)
                   * (interval_minutes (?rs ! i) * ms_per_minute) \<le> slotEnd))"
    by (rule exI[of _ per]) (intro conjI len s' each)
qed

text \<open>
  The rule of \<open>short_monday_rules\<close> ends at 10:40: three slots are emitted and the
  fourth, which would end at 11:00, is not.
\<close>

lemma generate_100_minutes:
  "generateSlotsForDate (fixed_zone 0) new_york_winter 1703900000000 1704067200000
       short_monday_rules booked_1430 ''America/New_York'' =
     Some (Inr [\<lparr> start = 1704117600000, end_at = 1704119400000, available = True \<rparr>,
           \<lparr> start = 1704119400000, end_at = 1704121200000, available = False \<rparr>,
           \<lparr> start = 1704121200000, end_at = 1704123000000, available = True \<rparr>])"
  by (simp add: generateSlotsForDate_def monday_2024_01_01 monday_rule_def short_monday_rules_def
      timeStringToUTC_def parseInt10_def is_space_def is_digit_def digits_value_def
      setHours_def zonedTimeToUtc_def new_york_winter_def Let_def
      slot_loop.simps isBefore_def isAfter_def addMinutes_def addHours_def
      meetsLeadTime_def withinBookingHorizon_def slotsOverlap_def booked_1430_def
      ms_per_minute_def ms_per_hour_def ms_per_day_def)

theorem generator_steps_each_rule_witness:
  "short_monday_rules =
     filter (\<lambda>rule. day_of_week rule = getDay (fixed_zone 0) 1704067200000) short_monday_rules \<and>
   generateSlotsForDate (fixed_zone 0) new_york_winter 1703900000000 1704067200000
       short_monday_rules booked_1430 ''America/New_York'' =
     Some (Inr [\<lparr> start = 1704117600000, end_at = 1704119400000, available = True \<rparr>,
           \<lparr> start = 1704119400000, end_at = 1704121200000, available = False \<rparr>,
           \<lparr> start = 1704121200000, end_at = 1704123000000, available = True \<rparr>]) \<and>
   (\<exists>per_rule. length per_rule = length short_monday_rules \<and>
         [\<lparr> start = 1704117600000, end_at = 1704119400000, available = True \<rparr>,
           \<lparr> start = 1704119400000, end_at = 1704121200000, available = False \<rparr>,
           \<lparr> start = 1704121200000, end_at = 1704123000000, available = True \<rparr>] = sort_key start (concat per_rule) \<and>
         (\<forall>i < length short_monday_rules. \<exists>slotStart slotEnd.
            timeStringToUTC (fixed_zone 0) new_york_winter (start_time (short_monday_rules ! i)) 1704067200000
                (timezone (short_monday_rules ! i)) = Inr slotStart \<and>
            timeStringToUTC (fixed_zone 0) new_york_winter (end_time (short_monday_rules ! i)) 1704067200000
                (timezone (short_monday_rules ! i)) = Inr slotEnd \<and>
            (\<forall>k < length (per_rule ! i).
               start (per_rule ! i ! k) =
                 slotStart + int k * (interval_minutes (short_monday_rules ! i) * ms_per_minute) \<and>
               end_at (per_rule ! i ! k) =
                 start (per_rule ! i ! k) + interval_minutes (short_monday_rules ! i) * ms_per_minute \<and>
               end_at (per_rule ! i ! k) \<le> slotEnd) \<and>
            \<not> (slotStart + int (length (per_rule ! i))
                   * (interval_minutes (short_monday_rules ! i) * ms_per_minute) < slotEnd \<and>
               slotStart + (int (length (per_rule ! i)) + 1)
                   * (interval_minutes (short_monday_rules ! i) * ms_per_minute) \<le> slotEnd)))"
proof -
  have day: "short_monday_rules =
     filter (\<lambda>rule. day_of_week rule = getDay (fixed_zone 0) 1704067200000) short_monday_rules"
    by (simp add: short_monday_rules_def monday_rule_def monday_2024_01_01)
  note t = generator_steps_each_rule[OF day, of new_york_winter 1703900000000 booked_1430
      "''America/New_York''"]
  note u = t[THEN conjunct2, THEN spec, THEN mp, OF generate_100_minutes]
  show ?thesis by (rule conjI[OF day conjI[OF generate_100_minutes u]])
qed

lemma rules_loop_flags:
  assumes "rules_loop sys zones now d bk rs acc = Some (Inr slots)"
    and "\<forall>s \<in> set acc. flag_ok sys now bk s"
  shows "\<forall>s \<in> set slots. flag_ok sys now bk s"
  using assms
proof (induction rs arbitrary: acc)
  case Nil
  then show ?case by simp
next
  case (Cons r rs)
  from Cons.prems(1) obtain a b acc' where
    loop: "slot_loop sys now bk (interval_minutes r) b a acc = Some acc'"
    and rest: "rules_loop sys zones now d bk rs acc' = Some (Inr slots)"
    by (auto split: sum.splits option.splits)
  from slot_loop_Some[OF loop] obtain n where
    "acc' = acc @ map (nth_slot sys now bk (interval_minutes r) a) [0..<n]" by blast
  with Cons.prems(2) have "\<forall>s \<in> set acc'. flag_ok sys now bk s"
    by (auto simp: flag_ok_def)
  from Cons.IH[OF rest this] show ?case .
qed

lemma rules_loop_returns:
  assumes "\<forall>r \<in> set rs. 0 < interval_minutes r"
  shows "rules_loop sys zones now d bk rs acc \<noteq> None"
  using assms
proof (induction rs arbitrary: acc)
  case Nil
  then show ?case by simp
next
  case (Cons r rs)
  then show ?case
    by (auto simp: slot_loop_total split: sum.splits)
qed

text \<open>
  Claim C3. \<open>generateSlotsForDate\<close> returns when every rule has a positive interval,
  and every slot it returns is flagged available exactly when its start meets the lead
  time, its start is within the horizon and it overlaps none of the booked intervals
  given; two intervals overlap exactly when each starts before the other ends, so
  intervals that touch at an endpoint do not.
\<close>

theorem slot_availability_flag:
  "((\<forall>r \<in> set availabilityRules. 0 < interval_minutes r) \<longrightarrow>
      generateSlotsForDate sys zones now date' availabilityRules bookedSlots hostTimezone \<noteq> None) \<and>
   (\<forall>slots. generateSlotsForDate sys zones now date' availabilityRules bookedSlots hostTimezone
               = Some (Inr slots) \<longrightarrow>
      (\<forall>s \<in> set slots.
         available s \<longleftrightarrow>
           meetsLeadTime now (start s) \<and> withinBookingHorizon sys now (start s) \<and>
           \<not> (\<exists>b \<in> set bookedSlots.
                 slotsOverlap (start s, end_at s) (slot_start b, slot_end b)))) \<and>
   (slotsOverlap (s1, e1) (s2, e2) \<longleftrightarrow> s1 < e2 \<and> e1 > s2) \<and>
   \<not> slotsOverlap (s1, e1) (e1, e2)"
proof (intro conjI impI allI)
  assume "\<forall>r \<in> set availabilityRules. 0 < interval_minutes r"
  then have "\<forall>r \<in> set (filter (\<lambda>rule. day_of_week rule = getDay sys date') availabilityRules).
      0 < interval_minutes r" by simp
  from rules_loop_returns[OF this]
  show "generateSlotsForDate sys zones now date' availabilityRules bookedSlots hostTimezone \<noteq> None"
    by (simp add: generateSlotsForDate_def)
next
  fix slots
  assume g: "generateSlotsForDate sys zones now date' availabilityRules bookedSlots hostTimezone
               = Some (Inr slots)"
  then obtain z where
    z: "rules_loop sys zones now date' bookedSlots
          (filter (\<lambda>rule. day_of_week rule = getDay sys date') availabilityRules) [] = Some z"
    and m: "map_sum id (sort_key start) z = Inr slots"
    by (auto simp: generateSlotsForDate_def)
  from m obtain raw where zr: "z = Inr raw" and s: "slots = sort_key start raw"
    by (cases z) auto
  note r = z[unfolded zr]
  from rules_loop_flags[OF r] have "\<forall>s \<in> set raw. flag_ok sys now bookedSlots s" by simp
  then show "\<forall>s \<in> set slots.
         available s \<longleftrightarrow>
           meetsLeadTime now (start s) \<and> withinBookingHorizon sys now (start s) \<and>
           \<not> (\<exists>b \<in> set bookedSlots.
                 slotsOverlap (start s, end_at s) (slot_start b, slot_end b))"
    by (simp add: s flag_ok_def slot_flag_def)
next
  show "slotsOverlap (s1, e1) (s2, e2) \<longleftrightarrow> s1 < e2 \<and> e1 > s2"
    by (rule slotsOverlap_iff)
  show "\<not> slotsOverlap (s1, e1) (e1, e2)"
    by (simp add: slotsOverlap_iff)
qed

lemma generate_with_booking:
  "generateSlotsForDate (fixed_zone 0) new_york_winter 1703900000000 1704067200000
       [monday_rule \<lparr> end_time := ''10:00:00'' \<rparr>] booked_1430 ''America/New_York'' =
     Some (Inr [\<lparr> start = 1704117600000, end_at = 1704119400000, available = True \<rparr>,
                \<lparr> start = 1704119400000, end_at = 1704121200000, available = False \<rparr>])"
  by (simp add: generateSlotsForDate_def monday_2024_01_01 monday_rule_def
      timeStringToUTC_def parseInt10_def is_space_def is_digit_def digits_value_def
      setHours_def zonedTimeToUtc_def new_york_winter_def Let_def
      slot_loop.simps isBefore_def isAfter_def addMinutes_def addHours_def
      meetsLeadTime_def withinBookingHorizon_def slotsOverlap_def booked_1430_def
      ms_per_minute_def ms_per_hour_def ms_per_day_def)

theorem slot_availability_flag_witness:
  "generateSlotsForDate (fixed_zone 0) new_york_winter 1703900000000 1704067200000
       [monday_rule \<lparr> end_time := ''10:00:00'' \<rparr>] booked_1430 ''America/New_York'' =
     Some (Inr [\<lparr> start = 1704117600000, end_at = 1704119400000, available = True \<rparr>,
                \<lparr> start = 1704119400000, end_at = 1704121200000, available = False \<rparr>]) \<and>
   meetsLeadTime 1703900000000 1704117600000 \<and>
   withinBookingHorizon (fixed_zone 0) 1703900000000 1704117600000 \<and>
   \<not> (\<exists>b \<in> set booked_1430.
          slotsOverlap (1704117600000, 1704119400000) (slot_start b, slot_end b)) \<and>
   (\<exists>b \<in> set booked_1430.
          slotsOverlap (1704119400000, 1704121200000) (slot_start b, slot_end b))"
proof -
  note t = slot_availability_flag[of "[monday_rule \<lparr> end_time := ''10:00:00'' \<rparr>]"
      "fixed_zone 0" new_york_winter 1703900000000 1704067200000 booked_1430 "''America/New_York''"]
  note u = t[THEN conjunct2, THEN conjunct1, THEN spec, THEN mp, OF generate_with_booking]
  from u have
    "True \<longleftrightarrow> meetsLeadTime 1703900000000 1704117600000 \<and>
       withinBookingHorizon (fixed_zone 0) 1703900000000 1704117600000 \<and>
       \<not> (\<exists>b \<in> set booked_1430.
          slotsOverlap (1704117600000, 1704119400000) (slot_start b, slot_end b))"
    by simp
  moreover from u have
    "False \<longleftrightarrow> meetsLeadTime 1703900000000 1704119400000 \<and>
       withinBookingHorizon (fixed_zone 0) 1703900000000 1704119400000 \<and>
       \<not> (\<exists>b \<in> set booked_1430.
          slotsOverlap (1704119400000, 1704121200000) (slot_start b, slot_end b))"
    by simp
  moreover have "meetsLeadTime 1703900000000 1704119400000 \<and>
       withinBookingHorizon (fixed_zone 0) 1703900000000 1704119400000"
    by (simp add: meetsLeadTime_def withinBookingHorizon_def addHours_def isAfter_def
        isBefore_def ms_per_hour_def ms_per_day_def)
  ultimately show ?thesis using generate_with_booking by blast
qed

section \<open>The Monday example\<close>

lemma parse_0900: "split_on CHR '':'' ''09:00:00'' = [''09'', ''00'', ''00'']"
  "split_on CHR '':'' ''17:00:00'' = [''17'', ''00'', ''00'']"
  "parseInt10 ''09'' = Some 9" "parseInt10 ''17'' = Some 17" "parseInt10 ''00'' = Some 0"
  by (simp_all add: parseInt10_def is_space_def is_digit_def digits_value_def)

lemma timeStringToUTC_0900:
  assumes "zones z = fixed_zone off"
  shows "timeStringToUTC (fixed_zone so) zones ''09:00:00'' d z =
           Inr (((d + so) div ms_per_day) * ms_per_day + 9 * ms_per_hour - off)"
    and "timeStringToUTC (fixed_zone so) zones ''17:00:00'' d z =
           Inr (((d + so) div ms_per_day) * ms_per_day + 17 * ms_per_hour - off)"
  using assms
  by (simp_all add: timeStringToUTC_def parse_0900 setHours_def zonedTimeToUtc_def Let_def)

lemma sorted_nth_slots:
  assumes "0 \<le> iv"
  shows "sorted (map start (map (nth_slot sys now bk iv c) [0..<n]))"
proof -
  have "0 \<le> iv * ms_per_minute" using assms by (simp add: ms_per_minute_def)
  then show ?thesis
    by (auto simp: sorted_iff_nth_mono mult_right_mono)
qed

lemma timeStringToUTC_0900_host:
  assumes "to_wall sys (of_wall sys (host_midnight sys d + 9 * ms_per_hour))
             = host_midnight sys d + 9 * ms_per_hour"
  shows "timeStringToUTC sys zones ''09:00:00'' d z =
           Inr (of_wall (zones z) (host_midnight sys d + 9 * ms_per_hour))"
  using assms
  by (simp add: timeStringToUTC_def parse_0900 setHours_def zonedTimeToUtc_def Let_def
      host_midnight_def)

lemma timeStringToUTC_1700_host:
  assumes "to_wall sys (of_wall sys (host_midnight sys d + 17 * ms_per_hour))
             = host_midnight sys d + 17 * ms_per_hour"
  shows "timeStringToUTC sys zones ''17:00:00'' d z =
           Inr (of_wall (zones z) (host_midnight sys d + 17 * ms_per_hour))"
  using assms
  by (simp add: timeStringToUTC_def parse_0900 setHours_def zonedTimeToUtc_def Let_def
      host_midnight_def)

lemma hhmm_of_wall:
  assumes w: "to_wall tz t = dn * ms_per_day + h * ms_per_hour + m * ms_per_minute"
    and "0 \<le> h" "h < 24" "0 \<le> m" "m < 60"
  shows "formatInTimezone_HHmm tz t = two_digits (nat h) @ '':'' @ two_digits (nat m)"
proof -
  let ?w = "h * ms_per_hour + m * ms_per_minute"
  have b: "0 \<le> ?w" "?w < ms_per_day"
    using assms(2-5) by (simp_all add: ms_per_hour_def ms_per_minute_def ms_per_day_def)
  have "(dn * ms_per_day + h * ms_per_hour + m * ms_per_minute) mod ms_per_day = ?w"
    using b by (simp add: add.assoc mod_pos_pos_trivial)
  moreover have "?w div ms_per_hour = h"
    using assms(2-5) by (simp add: ms_per_hour_def ms_per_minute_def)
  moreover have "(?w mod ms_per_hour) div ms_per_minute = m"
    using assms(2-5) by (simp add: ms_per_hour_def ms_per_minute_def mod_pos_pos_trivial)
  ultimately show ?thesis
    by (simp add: formatInTimezone_HHmm_def Let_def w)
qed

lemma generate_one_rule_of_day:
  assumes dow: "filter (\<lambda>rule. day_of_week rule = getDay sys d) rules = [r]"
    and s: "timeStringToUTC sys zones (start_time r) d (timezone r) = Inr a"
    and e: "timeStringToUTC sys zones (end_time r) d (timezone r) = Inr b"
    and iv: "0 < interval_minutes r"
  shows "generateSlotsForDate sys zones now d rules bk host =
           Some (Inr (map (nth_slot sys now bk (interval_minutes r) a)
                          [0..<nat ((b - a) div (interval_minutes r * ms_per_minute))]))"
proof -
  have "0 \<le> interval_minutes r" using iv by simp
  from sorted_nth_slots[OF this]
  have "sort_key start (map (nth_slot sys now bk (interval_minutes r) a) [0..<n]) =
          map (nth_slot sys now bk (interval_minutes r) a) [0..<n]" for n
    by (rule sort_key_id_if_sorted)
  then show ?thesis
    using dow s e
    by (simp add: generateSlotsForDate_def slot_loop_total[OF iv])
qed

lemma nth_slots_const_flag:
  assumes "\<And>k. k < n \<Longrightarrow>
     slot_flag sys now bk (c + int k * (iv * ms_per_minute)) (c + (int k + 1) * (iv * ms_per_minute)) = v"
  shows "map (nth_slot sys now bk iv c) [0..<n] =
         map (\<lambda>k. \<lparr> start = c + int k * (iv * ms_per_minute),
                     end_at = c + (int k + 1) * (iv * ms_per_minute), available = v \<rparr>) [0..<n]"
  using assms by (simp add: nth_slot_def)

text \<open>
  Claim C5. The target date is a Monday on the host's calendar, and the host's zone has
  the wall-clock times 09:00 and 17:00 of that date; New York is \<open>off\<close> away from UTC
  between those two times. The rule is the only one for Mondays: 09:00 to 17:00, 30
  minutes, \<open>America/New_York\<close>; there are no reservations. If the evaluation instant is
  more than two hours before the first slot, and the last slot starts before
  \<open>addDays now 14\<close>, the instant fourteen calendar days after the evaluation instant
  on the host's calendar, then the generator returns 16 slots of 30 minutes, all
  available, the first shown in New York as 09:00 to 09:30 and the last as 16:30 to
  17:00.
\<close>

theorem monday_rule_sixteen_slots:
  assumes rule: "filter (\<lambda>rule. day_of_week rule = 1) availabilityRules = [r]"
      "start_time r = ''09:00:00''" "end_time r = ''17:00:00''" "interval_minutes r = 30"
      "timezone r = ''America/New_York''"
    and monday: "getDay sys date' = 1"
    and host9: "to_wall sys (of_wall sys (host_midnight sys date' + 9 * ms_per_hour))
                  = host_midnight sys date' + 9 * ms_per_hour"
    and host17: "to_wall sys (of_wall sys (host_midnight sys date' + 17 * ms_per_hour))
                  = host_midnight sys date' + 17 * ms_per_hour"
    and ny: "\<forall>w. host_midnight sys date' + 9 * ms_per_hour \<le> w \<and>
                 w \<le> host_midnight sys date' + 17 * ms_per_hour \<longrightarrow>
               of_wall (zones ''America/New_York'') w = w - off \<and>
               to_wall (zones ''America/New_York'') (w - off) = w"
    and lead: "now + 2 * ms_per_hour < host_midnight sys date' + 9 * ms_per_hour - off"
    and horizon: "host_midnight sys date' + 16 * ms_per_hour + 30 * ms_per_minute - off
                    < addDays sys now 14"
  shows "let S = host_midnight sys date' + 9 * ms_per_hour - off in
     generateSlotsForDate sys zones now date' availabilityRules
         ([] :: BookedSlot list) ''America/New_York''
       = Some (Inr (map (\<lambda>k. \<lparr> start = S + int k * (30 * ms_per_minute),
                                  end_at = S + (int k + 1) * (30 * ms_per_minute),
                                  available = True \<rparr>) [0..<16])) \<and>
     formatInTimezone_HHmm (zones ''America/New_York'') S = ''09:00'' \<and>
     formatInTimezone_HHmm (zones ''America/New_York'') (S + 30 * ms_per_minute) = ''09:30'' \<and>
     formatInTimezone_HHmm (zones ''America/New_York'') (S + 15 * (30 * ms_per_minute)) = ''16:30'' \<and>
     formatInTimezone_HHmm (zones ''America/New_York'') (S + 16 * (30 * ms_per_minute)) = ''17:00''"
proof -
  define dn where "dn = to_wall sys date' div ms_per_day"
  define W where "W = host_midnight sys date'"
  define S where "S = W + 9 * ms_per_hour - off"
  let ?ny = "zones ''America/New_York''"
  have W: "W = dn * ms_per_day" by (simp add: W_def dn_def host_midnight_def)
  have ny9: "of_wall ?ny (W + 9 * ms_per_hour) = W + 9 * ms_per_hour - off"
    using ny[THEN spec, of "W + 9 * ms_per_hour"] by (simp add: W_def ms_per_hour_def)
  have ny17: "of_wall ?ny (W + 17 * ms_per_hour) = W + 17 * ms_per_hour - off"
    using ny[THEN spec, of "W + 17 * ms_per_hour"] by (simp add: W_def ms_per_hour_def)
  have a: "timeStringToUTC sys zones (start_time r) date' (timezone r) = Inr S"
    using timeStringToUTC_0900_host[of sys date' zones "''America/New_York''", OF host9] rule ny9
    by (simp add: S_def W_def)
  have b: "timeStringToUTC sys zones (end_time r) date' (timezone r)
             = Inr (S + 8 * ms_per_hour)"
    using timeStringToUTC_1700_host[of sys date' zones "''America/New_York''", OF host17] rule ny17
    by (simp add: S_def W_def)
  have f: "filter (\<lambda>rule. day_of_week rule = getDay sys date') availabilityRules = [r]"
    using rule monday by simp
  have iv: "0 < interval_minutes r" using rule by simp
  have flags: "slot_flag sys now ([] :: BookedSlot list)
                 (S + int k * (30 * ms_per_minute)) (S + (int k + 1) * (30 * ms_per_minute)) = True"
    if "k < 16" for k
  proof -
    have x0: "0 \<le> int k * (30 * ms_per_minute)" by (simp add: ms_per_minute_def)
    have x1: "int k * (30 * ms_per_minute) \<le> 15 * (30 * ms_per_minute)"
      using that by (simp add: ms_per_minute_def)
    have hz: "S + 15 * (30 * ms_per_minute) < addDays sys now 14"
      using horizon by (simp add: S_def W_def ms_per_hour_def ms_per_minute_def)
    have ld: "now + 2 * ms_per_hour < S" using lead by (simp add: S_def W_def)
    have l: "now + 2 * ms_per_hour < S + int k * (30 * ms_per_minute)"
      using x0 ld by linarith
    have h: "S + int k * (30 * ms_per_minute) < addDays sys now 14"
      using x1 hz by linarith
    show ?thesis
      unfolding slot_flag_def meetsLeadTime_def withinBookingHorizon_def addHours_def
        isAfter_def isBefore_def Let_def
      using l h by simp
  qed
  have n': "nat ((S + 8 * ms_per_hour - S) div (30 * ms_per_minute)) = 16"
    by (simp add: ms_per_hour_def ms_per_minute_def)
  have m: "map (nth_slot sys now ([] :: BookedSlot list) 30 S) [0..<16] =
           map (\<lambda>k. \<lparr> start = S + int k * (30 * ms_per_minute),
                       end_at = S + (int k + 1) * (30 * ms_per_minute),
                       available = True \<rparr>) [0..<16]"
    by (rule nth_slots_const_flag) (rule flags)
  have gen: "generateSlotsForDate sys zones now date' availabilityRules
         ([] :: BookedSlot list) ''America/New_York''
       = Some (Inr (map (\<lambda>k. \<lparr> start = S + int k * (30 * ms_per_minute),
                                  end_at = S + (int k + 1) * (30 * ms_per_minute),
                                  available = True \<rparr>) [0..<16]))"
    using generate_one_rule_of_day[OF f a b iv, of now "[] :: BookedSlot list" "''America/New_York''"]
    unfolding rule(4) n' m .
  have shown: "to_wall ?ny (W + h * ms_per_hour + m * ms_per_minute - off)
                 = dn * ms_per_day + h * ms_per_hour + m * ms_per_minute"
    if "9 * ms_per_hour \<le> h * ms_per_hour + m * ms_per_minute"
       "h * ms_per_hour + m * ms_per_minute \<le> 17 * ms_per_hour" for h m
    using ny[THEN spec, of "W + h * ms_per_hour + m * ms_per_minute"] that
    by (simp add: W_def[symmetric] W[symmetric])
  have e1: "S = W + 9 * ms_per_hour + 0 * ms_per_minute - off"
    by (simp add: S_def)
  have e2: "S + 30 * ms_per_minute = W + 9 * ms_per_hour + 30 * ms_per_minute - off"
    by (simp add: S_def)
  have e3: "S + 15 * (30 * ms_per_minute) = W + 16 * ms_per_hour + 30 * ms_per_minute - off"
    by (simp add: S_def ms_per_hour_def ms_per_minute_def)
  have e4: "S + 16 * (30 * ms_per_minute) = W + 17 * ms_per_hour + 0 * ms_per_minute - off"
    by (simp add: S_def ms_per_hour_def ms_per_minute_def)
  have d1: "formatInTimezone_HHmm ?ny S = ''09:00''"
    unfolding e1
    by (subst hhmm_of_wall[OF shown]) (simp_all add: two_digits_def digit_char_def ms_per_hour_def ms_per_minute_def)
  have d2: "formatInTimezone_HHmm ?ny (S + 30 * ms_per_minute) = ''09:30''"
    unfolding e2
    by (subst hhmm_of_wall[OF shown]) (simp_all add: two_digits_def digit_char_def ms_per_hour_def ms_per_minute_def)
  have d3: "formatInTimezone_HHmm ?ny (S + 15 * (30 * ms_per_minute)) = ''16:30''"
    unfolding e3
    by (subst hhmm_of_wall[OF shown]) (simp_all add: two_digits_def digit_char_def ms_per_hour_def ms_per_minute_def)
  have d4: "formatInTimezone_HHmm ?ny (S + 16 * (30 * ms_per_minute)) = ''17:00''"
    unfolding e4
    by (subst hhmm_of_wall[OF shown]) (simp_all add: two_digits_def digit_char_def ms_per_hour_def ms_per_minute_def)
  from gen d1 d2 d3 d4 show ?thesis
    unfolding Let_def S_def W_def by (intro conjI)
qed

theorem monday_rule_sixteen_slots_witness:
  "generateSlotsForDate (fixed_zone 0) new_york_winter 1703900000000 1704067200000
       [monday_rule] ([] :: BookedSlot list) ''America/New_York''
     = Some (Inr (map (\<lambda>k. \<lparr> start = 1704117600000 + int k * 1800000,
                                end_at = 1704117600000 + (int k + 1) * 1800000,
                                available = True \<rparr>) [0..<16])) \<and>
   formatInTimezone_HHmm (new_york_winter ''America/New_York'') 1704117600000 = ''09:00'' \<and>
   formatInTimezone_HHmm (new_york_winter ''America/New_York'') 1704119400000 = ''09:30'' \<and>
   formatInTimezone_HHmm (new_york_winter ''America/New_York'') 1704144600000 = ''16:30'' \<and>
   formatInTimezone_HHmm (new_york_winter ''America/New_York'') 1704146400000 = ''17:00''"
proof -
  have r: "filter (\<lambda>rule. day_of_week rule = 1) [monday_rule] = [monday_rule]"
    "start_time monday_rule = ''09:00:00''" "end_time monday_rule = ''17:00:00''"
    "interval_minutes monday_rule = 30" "timezone monday_rule = ''America/New_York''"
    by (simp_all add: monday_rule_def)
  have hm: "host_midnight (fixed_zone 0) 1704067200000 = 1704067200000"
    by (simp add: host_midnight_def ms_per_day_def)
  have host9: "to_wall (fixed_zone 0) (of_wall (fixed_zone 0)
                 (host_midnight (fixed_zone 0) 1704067200000 + 9 * ms_per_hour))
               = host_midnight (fixed_zone 0) 1704067200000 + 9 * ms_per_hour"
    by simp
  have host17: "to_wall (fixed_zone 0) (of_wall (fixed_zone 0)
                 (host_midnight (fixed_zone 0) 1704067200000 + 17 * ms_per_hour))
               = host_midnight (fixed_zone 0) 1704067200000 + 17 * ms_per_hour"
    by simp
  have ny: "\<forall>w. host_midnight (fixed_zone 0) 1704067200000 + 9 * ms_per_hour \<le> w \<and>
                 w \<le> host_midnight (fixed_zone 0) 1704067200000 + 17 * ms_per_hour \<longrightarrow>
               of_wall (new_york_winter ''America/New_York'') w = w - (- 18000000) \<and>
               to_wall (new_york_winter ''America/New_York'') (w - (- 18000000)) = w"
    by (simp add: new_york_winter_def)
  have lead: "1703900000000 + 2 * ms_per_hour <
         host_midnight (fixed_zone 0) 1704067200000 + 9 * ms_per_hour - (- 18000000)"
    by (simp add: hm ms_per_hour_def)
  have hor: "host_midnight (fixed_zone 0) 1704067200000 + 16 * ms_per_hour
                    + 30 * ms_per_minute - (- 18000000) < addDays (fixed_zone 0) 1703900000000 14"
    by (simp add: hm ms_per_hour_def ms_per_day_def ms_per_minute_def)
  have S: "host_midnight (fixed_zone 0) 1704067200000 + 9 * ms_per_hour - (- 18000000)
             = 1704117600000"
    by (simp add: hm ms_per_hour_def)
  note t = monday_rule_sixteen_slots[where zones = new_york_winter and off = "- 18000000"
      and sys = "fixed_zone 0" and date' = 1704067200000 and now = 1703900000000,
      OF r monday_2024_01_01 host9 host17 ny lead hor, unfolded Let_def S]
  have m: "30 * ms_per_minute = 1800000" by (simp add: ms_per_minute_def)
  from t show ?thesis unfolding m by simp
qed

text \<open>
  With the evaluation instant at 2023-12-01 00:00 UTC, 31 days before Monday 2024-01-01,
  the same 16 slots come out and every one of them is marked unavailable: their starts
  are beyond the horizon of 14 days.
\<close>

theorem monday_rule_far_before_counterexample:
  "generateSlotsForDate (fixed_zone 0) new_york_winter 1701388800000 1704067200000
       [monday_rule] ([] :: BookedSlot list) ''America/New_York''
     = Some (Inr (map (\<lambda>k. \<lparr> start = 1704117600000 + int k * 1800000,
                                end_at = 1704117600000 + (int k + 1) * 1800000,
                                available = False \<rparr>) [0..<16]))"
proof -
  have f: "filter (\<lambda>rule. day_of_week rule = getDay (fixed_zone 0) 1704067200000) [monday_rule]
             = [monday_rule]"
    by (simp add: monday_2024_01_01 monday_rule_def)
  have ny: "new_york_winter ''America/New_York'' = fixed_zone (- 18000000)"
    by (simp add: new_york_winter_def)
  have a: "timeStringToUTC (fixed_zone 0) new_york_winter (start_time monday_rule) 1704067200000
             (timezone monday_rule) = Inr 1704117600000"
    using timeStringToUTC_0900(1)[of new_york_winter "''America/New_York''" "- 18000000" 0 1704067200000, OF ny]
    by (simp add: monday_rule_def ms_per_day_def ms_per_hour_def)
  have b: "timeStringToUTC (fixed_zone 0) new_york_winter (end_time monday_rule) 1704067200000
             (timezone monday_rule) = Inr 1704146400000"
    using timeStringToUTC_0900(2)[of new_york_winter "''America/New_York''" "- 18000000" 0 1704067200000, OF ny]
    by (simp add: monday_rule_def ms_per_day_def ms_per_hour_def)
  have iv: "0 < interval_minutes monday_rule" by (simp add: monday_rule_def)
  have n: "nat ((1704146400000 - 1704117600000) div (1800000 :: int)) = 16"
    by simp
  have flags: "slot_flag (fixed_zone 0) 1701388800000 ([] :: BookedSlot list)
                 (1704117600000 + int k * (30 * ms_per_minute))
                 (1704117600000 + (int k + 1) * (30 * ms_per_minute)) = False" for k
    by (simp add: slot_flag_def withinBookingHorizon_def isBefore_def ms_per_day_def ms_per_minute_def)
  have m: "map (nth_slot (fixed_zone 0) 1701388800000 ([] :: BookedSlot list) 30 1704117600000) [0..<16] =
           map (\<lambda>k. \<lparr> start = 1704117600000 + int k * (30 * ms_per_minute),
                       end_at = 1704117600000 + (int k + 1) * (30 * ms_per_minute),
                       available = False \<rparr>) [0..<16]"
    by (rule nth_slots_const_flag) (rule flags)
  have i: "interval_minutes monday_rule = 30" by (simp add: monday_rule_def)
  have mm: "30 * ms_per_minute = 1800000" by (simp add: ms_per_minute_def)
  show ?thesis
    using generate_one_rule_of_day[OF f a b iv, of 1701388800000 "[] :: BookedSlot list" "''America/New_York''"]
    unfolding i mm n m mm .
qed

section \<open>Date ranges\<close>

lemma ms_per_day_pos: "0 < ms_per_day"
  by (simp add: ms_per_day_def)

lemma parseISO_date_fixed [simp]:
  "parseISO_date (fixed_zone off) day = day * ms_per_day - off"
  by (simp add: parseISO_date_def)

lemma startOfDay_midnight:
  "startOfDay (fixed_zone off) (day * ms_per_day - off) = day * ms_per_day - off"
  using ms_per_day_pos by (simp add: startOfDay_def)

lemma startOfDay_last_ms:
  "startOfDay (fixed_zone off) (day * ms_per_day + (ms_per_day - 1) - off) = day * ms_per_day - off"
proof -
  have "(day * ms_per_day + (ms_per_day - 1)) div ms_per_day = day"
    using ms_per_day_pos
    by (simp add: div_pos_pos_trivial)
  then show ?thesis by (simp add: startOfDay_def)
qed

lemma endOfDay_midnight:
  "endOfDay (fixed_zone off) (day * ms_per_day - off) = day * ms_per_day + (ms_per_day - 1) - off"
  using ms_per_day_pos by (simp add: endOfDay_def)

lemma ceiling_whole_days: "\<lceil>real_of_int (n * 86400000) / (1000 * 60 * 60 * 24)\<rceil> = n"
  by simp

lemma days_between:
  "\<lceil>real_of_int ((td * ms_per_day - off) - (fd * ms_per_day - off)) / (1000 * 60 * 60 * 24)\<rceil>
     = td - fd"
proof -
  have "(td * ms_per_day - off) - (fd * ms_per_day - off) = (td - fd) * 86400000"
    by (simp add: ms_per_day_def algebra_simps)
  then show ?thesis by (simp only: ceiling_whole_days)
qed

lemma validateDateRange_fixed:
  "validateDateRange (fixed_zone off) fromDate toDate =
     (if toDate < fromDate then Inl FromAfterTo
      else if toDate - fromDate > 14 then Inl DateRangeTooWide
      else Inr (fromDate * ms_per_day - off, toDate * ms_per_day + (ms_per_day - 1) - off))"
proof -
  have a: "isAfter (fromDate * ms_per_day - off) (toDate * ms_per_day - off) \<longleftrightarrow> toDate < fromDate"
    using ms_per_day_pos by (simp add: isAfter_def)
  show ?thesis
    unfolding validateDateRange_def Let_def parseISO_date_fixed a days_between
      startOfDay_midnight endOfDay_midnight
    by (rule refl)
qed

lemma date_loop_fixed:
  "date_loop (fixed_zone off) endDate currentDate dates =
     Some (dates @ map (\<lambda>k. currentDate + int k * ms_per_day)
                       [0..<nat ((endDate - currentDate) div ms_per_day + 1)])"
proof -
  have "date_loop (fixed_zone off) endDate currentDate dates =
     Some (dates @ map (\<lambda>k. currentDate + int k * ms_per_day) [0..<n])"
    if "n = nat ((endDate - currentDate) div ms_per_day + 1)" for n
    using that
  proof (induction n arbitrary: currentDate dates)
    case 0
    then have "(endDate - currentDate) div ms_per_day < 0" by linarith
    then have "endDate - currentDate < 0"
      using ms_per_day_pos pos_imp_zdiv_neg_iff[of ms_per_day "endDate - currentDate"] by simp
    then show ?case
      by (subst date_loop.simps) (simp add: isAfter_def)
  next
    case (Suc n)
    then have d: "(endDate - currentDate) div ms_per_day = int n" by linarith
    then have ge: "currentDate \<le> endDate"
      using ms_per_day_pos pos_imp_zdiv_nonneg_iff[of ms_per_day "endDate - currentDate"] by simp
    have "(endDate - currentDate) div ms_per_day
            = ((endDate - (currentDate + ms_per_day)) + ms_per_day) div ms_per_day" by simp
    also have "\<dots> = (endDate - (currentDate + ms_per_day)) div ms_per_day + 1"
      using ms_per_day_pos by (subst div_add_self2) simp_all
    finally have n: "n = nat ((endDate - (currentDate + ms_per_day)) div ms_per_day + 1)"
      using d by simp
    have shift: "map (\<lambda>k. currentDate + int k * ms_per_day) [0..<Suc n] =
        currentDate # map (\<lambda>k. currentDate + ms_per_day + int k * ms_per_day) [0..<n]"
    proof -
      have "[0..<Suc n] = 0 # map Suc [0..<n]"
        by (simp add: upt_conv_Cons map_Suc_upt del: upt_Suc)
      then show ?thesis by (simp add: comp_def algebra_simps del: upt_Suc)
    qed
    show ?case
      using ge Suc.IH[OF n, of "dates @ [currentDate]"]
      by (subst date_loop.simps) (simp add: isAfter_def shift del: upt_Suc)
  qed
  then show ?thesis by simp
qed

lemma generateDateRange_fixed:
  assumes "fromDate \<le> toDate"
  shows "generateDateRange (fixed_zone off) (fromDate * ms_per_day - off)
           (toDate * ms_per_day + (ms_per_day - 1) - off) =
         Some (map (\<lambda>k. (fromDate + int k) * ms_per_day - off) [0..<nat (toDate - fromDate + 1)])"
proof -
  have "toDate * ms_per_day - off - (fromDate * ms_per_day - off) = (toDate - fromDate) * ms_per_day"
    by (simp add: left_diff_distrib)
  then have d: "(toDate * ms_per_day - off - (fromDate * ms_per_day - off)) div ms_per_day
          = toDate - fromDate"
    using ms_per_day_pos by simp
  have m: "(\<lambda>k. fromDate * ms_per_day - off + int k * ms_per_day) =
           (\<lambda>k. (fromDate + int k) * ms_per_day - off)"
    by (rule ext) (simp add: distrib_right)
  show ?thesis
    unfolding generateDateRange_def Let_def startOfDay_midnight startOfDay_last_ms
      date_loop_fixed d m
    by simp
qed

lemma whole_days_exceeded:
  "(14 < \<lceil>real_of_int x / (1000 * 60 * 60 * 24)\<rceil>) = (14 * ms_per_day < x)"
proof -
  have "(14 < \<lceil>real_of_int x / (1000 * 60 * 60 * 24)\<rceil>) = (14 < real_of_int x / 86400000)"
    by (simp add: less_ceiling_iff)
  also have "\<dots> = (14 * 86400000 < real_of_int x)"
    by (simp add: field_simps)
  also have "\<dots> = (14 * 86400000 < x)" by linarith
  finally show ?thesis by (simp add: ms_per_day_def)
qed

lemma validateDateRange_any_host:
  "validateDateRange sys fromDate toDate =
     (if parseISO_date sys toDate < parseISO_date sys fromDate then Inl FromAfterTo
      else if 14 * ms_per_day < parseISO_date sys toDate - parseISO_date sys fromDate
           then Inl DateRangeTooWide
      else Inr (startOfDay sys (parseISO_date sys fromDate),
                endOfDay sys (parseISO_date sys toDate)))"
  unfolding validateDateRange_def Let_def isAfter_def whole_days_exceeded
  by (rule refl)

text \<open>
  Claim C9. On a host whose zone has a fixed offset from UTC, a query from \<open>fromDate\<close> to
  \<open>toDate\<close> is rejected when \<open>toDate\<close> is before \<open>fromDate\<close>, rejected when \<open>toDate\<close> is
  more than 14 days after \<open>fromDate\<close>, and accepted otherwise; an accepted query
  generates the midnights of every calendar date from \<open>fromDate\<close> to \<open>toDate\<close>, both
  included, which are between 1 and 15 dates. On any host the two rejections compare
  the host's midnights of the two dates: the first rejects when the one of \<open>toDate\<close> is
  the earlier, the second when it is more than 14 times 24 hours after the other.
\<close>

theorem date_range_query:
  "validateDateRange (fixed_zone off) fromDate toDate =
     (if toDate < fromDate then Inl FromAfterTo
      else if toDate - fromDate > 14 then Inl DateRangeTooWide
      else Inr (parseISO_date (fixed_zone off) fromDate,
                parseISO_date (fixed_zone off) toDate + (ms_per_day - 1))) \<and>
   (\<forall>from to. validateDateRange (fixed_zone off) fromDate toDate = Inr (from, to) \<longrightarrow>
      generateDateRange (fixed_zone off) from to =
        Some (map (\<lambda>k. parseISO_date (fixed_zone off) (fromDate + int k))
                  [0..<nat (toDate - fromDate + 1)]) \<and>
      1 \<le> nat (toDate - fromDate + 1) \<and> nat (toDate - fromDate + 1) \<le> 15) \<and>
   validateDateRange sys fromDate toDate =
     (if parseISO_date sys toDate < parseISO_date sys fromDate then Inl FromAfterTo
      else if 14 * ms_per_day < parseISO_date sys toDate - parseISO_date sys fromDate
           then Inl DateRangeTooWide
      else Inr (startOfDay sys (parseISO_date sys fromDate),
                endOfDay sys (parseISO_date sys toDate)))"
proof (intro conjI allI impI)
  show "validateDateRange (fixed_zone off) fromDate toDate =
     (if toDate < fromDate then Inl FromAfterTo
      else if toDate - fromDate > 14 then Inl DateRangeTooWide
      else Inr (parseISO_date (fixed_zone off) fromDate,
                parseISO_date (fixed_zone off) toDate + (ms_per_day - 1)))"
    by (simp add: validateDateRange_fixed)
  show "validateDateRange sys fromDate toDate =
     (if parseISO_date sys toDate < parseISO_date sys fromDate then Inl FromAfterTo
      else if 14 * ms_per_day < parseISO_date sys toDate - parseISO_date sys fromDate
           then Inl DateRangeTooWide
      else Inr (startOfDay sys (parseISO_date sys fromDate),
                endOfDay sys (parseISO_date sys toDate)))"
    by (rule validateDateRange_any_host)
next
  fix "from" to
  assume v: "validateDateRange (fixed_zone off) fromDate toDate = Inr (from, to)"
  then have le: "fromDate \<le> toDate" and w: "toDate - fromDate \<le> 14"
    and f: "from = fromDate * ms_per_day - off"
    and t: "to = toDate * ms_per_day + (ms_per_day - 1) - off"
    by (auto simp: validateDateRange_fixed split: if_splits)
  show "generateDateRange (fixed_zone off) from to =
        Some (map (\<lambda>k. parseISO_date (fixed_zone off) (fromDate + int k))
                  [0..<nat (toDate - fromDate + 1)])"
    using generateDateRange_fixed[OF le] by (simp add: f t)
  show "1 \<le> nat (toDate - fromDate + 1)" using le by simp
  show "nat (toDate - fromDate + 1) \<le> 15" using w by simp
qed

text \<open>Day 19725 is 2024-01-03 and day 19738 is 2024-01-16.\<close>

theorem date_range_query_witness:
  "validateDateRange (fixed_zone 0) 19725 19723 = Inl FromAfterTo \<and>
   validateDateRange (fixed_zone 0) 19723 19738 = Inl DateRangeTooWide \<and>
   validateDateRange (fixed_zone 0) 19723 19725 = Inr (1704067200000, 1704326399999) \<and>
   generateDateRange (fixed_zone 0) 1704067200000 1704326399999 =
     Some [1704067200000, 1704153600000, 1704240000000]"
proof -
  note a = date_range_query[of 0 19725 19723, THEN conjunct1]
  note b = date_range_query[of 0 19723 19738, THEN conjunct1]
  note c = date_range_query[of 0 19723 19725, THEN conjunct1]
  from c have c': "validateDateRange (fixed_zone 0) 19723 19725 = Inr (1704067200000, 1704326399999)"
    by (simp add: ms_per_day_def)
  note d = date_range_query[of 0 19723 19725, THEN conjunct2, THEN conjunct1, THEN spec,
      THEN spec, THEN mp, OF c', THEN conjunct1]
  have u: "[0..<nat (19725 - 19723 + 1)] = [0, 1, 2]"
    by (simp add: upt_rec)
  from d have d': "generateDateRange (fixed_zone 0) 1704067200000 1704326399999 =
     Some [1704067200000, 1704153600000, 1704240000000]"
    unfolding u by (simp add: ms_per_day_def)
  from a b c' d' show ?thesis by simp
qed

text \<open>
  Day 19723 is 2024-01-01 and day 19737 is 2024-01-15. The query from the one to the
  other covers 15 calendar dates, is accepted, and 15 dates are generated.
\<close>

theorem fifteen_dates_accepted_counterexample:
  "validateDateRange (fixed_zone 0) 19723 19737 = Inr (1704067200000, 1705363199999) \<and>
   map_option length (generateDateRange (fixed_zone 0) 1704067200000 1705363199999) = Some 15"
proof -
  have v: "validateDateRange (fixed_zone 0) 19723 19737 = Inr (1704067200000, 1705363199999)"
    by (simp add: validateDateRange_fixed ms_per_day_def)
  have e: "19723 * ms_per_day - 0 = 1704067200000"
    "19737 * ms_per_day + (ms_per_day - 1) - 0 = 1705363199999"
    by (simp_all add: ms_per_day_def)
  have n: "nat (19737 - 19723 + 1) = 15" by simp
  have "generateDateRange (fixed_zone 0) (19723 * ms_per_day - 0)
           (19737 * ms_per_day + (ms_per_day - 1) - 0) =
         Some (map (\<lambda>k. (19723 + int k) * ms_per_day - 0) [0..<nat (19737 - 19723 + 1)])"
    by (rule generateDateRange_fixed) simp
  then have "generateDateRange (fixed_zone 0) 1704067200000 1705363199999 =
         Some (map (\<lambda>k. (19723 + int k) * ms_per_day - 0) [0..<15])"
    unfolding e n .
  then have "map_option length (generateDateRange (fixed_zone 0) 1704067200000 1705363199999)
      = Some 15"
    by simp
  with v show ?thesis by simp
qed

end
